theory Spec2Isabelle
  imports Main
begin

section \<open>Data model (lib/types.ts)\<close>

text \<open>
  A \<open>SewerInspection\<close> is what \<open>JSON.parse\<close> yields for one line of a source file.
  The TypeScript interface declares the fields as required, but the code guards every
  access (\<open>record.location?.city\<close>, \<open>=== undefined\<close>), so each field the code tests is
  optional here: \<open>None\<close> is JavaScript's \<open>undefined\<close>.  Only the fields that the
  importer, the store and the two search backends read are kept.

  \<open>timestamp_utc\<close> is the value of \<open>new Date(timestamp_utc)\<close> in milliseconds;
  \<open>None\<close> is a missing or unparseable date, for which \<open>toISOString()\<close> raises.
  Scores are integers (the column is \<open>INTEGER\<close>).
\<close>

record Location =
  city :: "string option"
  state :: "string option"

record PipeDetails =
  material :: "string option"
  diameter_in :: "int option"

record SewerInspection =
  insp_id :: "string option"
  timestamp_utc :: "int option"
  location :: "Location option"
  pipe :: "PipeDetails option"
  inspection_score :: "int option"
  requires_repair :: "bool option"

text \<open>\<open>inspection.location?.city\<close> and its siblings.\<close>

definition loc_city :: "SewerInspection \<Rightarrow> string option" where
  "loc_city r = (case location r of None \<Rightarrow> None | Some l \<Rightarrow> city l)"

definition loc_state :: "SewerInspection \<Rightarrow> string option" where
  "loc_state r = (case location r of None \<Rightarrow> None | Some l \<Rightarrow> state l)"

definition pipe_material :: "SewerInspection \<Rightarrow> string option" where
  "pipe_material r = (case pipe r of None \<Rightarrow> None | Some p \<Rightarrow> material p)"

definition pipe_diameter_in :: "SewerInspection \<Rightarrow> int option" where
  "pipe_diameter_in r = (case pipe r of None \<Rightarrow> None | Some p \<Rightarrow> diameter_in p)"

text \<open>JavaScript truthiness of an optional string: \<open>undefined\<close> and \<open>''\<close> are falsy.\<close>

definition truthy :: "string option \<Rightarrow> bool" where
  "truthy v = (case v of None \<Rightarrow> False | Some s \<Rightarrow> s \<noteq> [])"

record SearchFilters =
  cityF :: "string option"
  stateF :: "string option"
  materialF :: "string option"
  scoreMin :: "int option"
  scoreMax :: "int option"
  requiresRepair :: "bool option"

datatype error =
  S3StreamError      \<comment> \<open>\<open>Failed to stream from S3\<close>: the fetch failed\<close>
  | RangeError       \<comment> \<open>\<open>Invalid time value\<close> from \<open>toISOString\<close>\<close>
  | TypeError        \<comment> \<open>the SQLite driver refuses to bind \<open>undefined\<close> or a boolean\<close>
  | TransactionError \<comment> \<open>the storage layer failed to run the batch transaction\<close>
  | SearchFailed     \<comment> \<open>\<open>Search failed\<close>, rethrown by the streaming search\<close>

section \<open>Streaming decoder (streamFromS3)\<close>

text \<open>
  A source file is the list of its lines.  A line is blank (\<open>line.trim()\<close> is empty),
  malformed (\<open>JSON.parse\<close> raises) or a record.  The decoder's result does not depend
  on how the bytes are cut into network reads (a trailing partial line stays in the
  buffer until it is complete, and the last line is handled after the read loop under
  the same conditions), so the model runs the per-line loop over the whole file.
\<close>

datatype line = Blank | Malformed | Json SewerInspection

text \<open>
  The loop over the lines, with the counters \<open>recordsSkipped\<close> and \<open>resultsCollected\<close>
  and the array \<open>results\<close>.  A malformed line within the window is logged and dropped;
  no counter records it.
\<close>

fun streamLines ::
  "line list \<Rightarrow> nat \<Rightarrow> nat \<Rightarrow> nat \<Rightarrow> nat \<Rightarrow> SewerInspection list \<Rightarrow> SewerInspection list"
where
  "streamLines [] limit offset recordsSkipped resultsCollected results = results"
| "streamLines (Blank # ls) limit offset recordsSkipped resultsCollected results =
     streamLines ls limit offset recordsSkipped resultsCollected results"
| "streamLines (Malformed # ls) limit offset recordsSkipped resultsCollected results =
     (if recordsSkipped < offset
      then streamLines ls limit offset (Suc recordsSkipped) resultsCollected results
      else if resultsCollected < limit
      then streamLines ls limit offset recordsSkipped resultsCollected results
      else results)"
| "streamLines (Json r # ls) limit offset recordsSkipped resultsCollected results =
     (if recordsSkipped < offset
      then streamLines ls limit offset (Suc recordsSkipped) resultsCollected results
      else if resultsCollected < limit
      then streamLines ls limit offset recordsSkipped (Suc resultsCollected) (results @ [r])
      else results)"

text \<open>
  The remote store maps a file name to its lines; \<open>None\<close> is a source that cannot be
  fetched (\<open>!response.ok\<close>), which raises.
\<close>

type_synonym bucket = "string \<Rightarrow> line list option"

definition streamFromS3 :: "bucket \<Rightarrow> string \<Rightarrow> nat \<Rightarrow> nat \<Rightarrow> error + SewerInspection list" where
  "streamFromS3 s3 fileName limit offset =
     (case s3 fileName of
        None \<Rightarrow> Inl S3StreamError
      | Some ls \<Rightarrow> Inr (streamLines ls limit offset 0 0 []))"

section \<open>Record validation (DataImporter.validateRecord)\<close>

definition validateRecord :: "SewerInspection \<Rightarrow> bool" where
  "validateRecord r =
     (if \<not> truthy (insp_id r) \<or> \<not> truthy (loc_city r) \<or> \<not> truthy (loc_state r) then False
      else if \<not> truthy (pipe_material r) \<or> pipe_diameter_in r = None then False
      else if inspection_score r = None \<or> requires_repair r = None then False
      else True)"


section \<open>Structured store (lib/database/sqlite.ts)\<close>

text \<open>
  A row of the \<open>inspections\<close> table, with the promoted columns the queries read.  The
  table is the list of its rows in storage order.  \<open>timestamp_utc\<close> holds the ISO string
  of the date, whose order is the order of the dates; the column is the date itself.
  The \<open>defects\<close> table is not modelled.
\<close>

record Row =
  id_col :: string
  timestamp_utc_col :: int
  city_col :: string
  state_col :: string
  material_col :: string
  diameter_in_col :: int
  inspection_score_col :: int
  requires_repair_col :: bool

datatype Status = Running | Completed | Failed | Paused

record ImportLogRow =
  log_id :: nat
  source_file :: string
  started_at :: int
  completed_at :: "int option"
  records_processed :: nat
  records_imported :: nat
  errors_col :: nat
  status_col :: Status
  error_message :: "error option"

record Database =
  inspections :: "Row list"
  import_log :: "ImportLogRow list"

text \<open>\<open>safeValue(value, defaultValue)\<close> on an optional string: \<open>undefined\<close> and \<open>''\<close>
  give the default.\<close>

definition safeValue :: "string option \<Rightarrow> string \<Rightarrow> string" where
  "safeValue v defaultValue =
     (case v of None \<Rightarrow> defaultValue | Some s \<Rightarrow> if s = [] then defaultValue else s)"

text \<open>
  \<open>transformInspectionForDb\<close> followed by the binding of the values in
  \<open>insertInspection\<close>.  An invalid date raises in \<open>toISOString\<close>.  A missing
  \<open>requires_repair\<close> becomes the default \<open>false\<close>, which \<open>safeValue\<close> returns
  unconverted and the driver refuses to bind.
\<close>

definition transformInspectionForDb :: "SewerInspection \<Rightarrow> error + Row" where
  "transformInspectionForDb inspection =
     (case timestamp_utc inspection of
        None \<Rightarrow> Inl RangeError
      | Some t \<Rightarrow>
          (case requires_repair inspection of
             None \<Rightarrow> Inl TypeError
           | Some b \<Rightarrow>
               Inr \<lparr> id_col = safeValue (insp_id inspection) [],
                     timestamp_utc_col = t,
                     city_col = safeValue (loc_city inspection) [],
                     state_col = safeValue (loc_state inspection) [],
                     material_col = safeValue (pipe_material inspection) [],
                     diameter_in_col = (case pipe_diameter_in inspection of None \<Rightarrow> 0 | Some d \<Rightarrow> d),
                     inspection_score_col = (case inspection_score inspection of None \<Rightarrow> 0 | Some s \<Rightarrow> s),
                     requires_repair_col = b \<rparr>))"

definition transformDbToInspection :: "Row \<Rightarrow> SewerInspection" where
  "transformDbToInspection row =
     \<lparr> insp_id = Some (id_col row),
       timestamp_utc = Some (timestamp_utc_col row),
       location = Some \<lparr> city = Some (city_col row), state = Some (state_col row) \<rparr>,
       pipe = Some \<lparr> material = Some (material_col row), diameter_in = Some (diameter_in_col row) \<rparr>,
       inspection_score = Some (inspection_score_col row),
       requires_repair = Some (requires_repair_col row) \<rparr>"

text \<open>\<open>INSERT OR REPLACE\<close> on the primary key \<open>id\<close>: a row with the same id is deleted
  and the new row is appended.\<close>

definition sql_insert_or_replace :: "Row \<Rightarrow> Row list \<Rightarrow> Row list" where
  "sql_insert_or_replace row rows = filter (\<lambda>r. id_col r \<noteq> id_col row) rows @ [row]"

text \<open>\<open>insertInspection\<close> returns \<open>result.changes > 0\<close>, and an insert-or-replace
  always changes one row.\<close>

definition insertInspection :: "SewerInspection \<Rightarrow> Row list \<Rightarrow> error + (bool \<times> Row list)" where
  "insertInspection inspection rows =
     (case transformInspectionForDb inspection of
        Inl e \<Rightarrow> Inl e
      | Inr row \<Rightarrow> Inr (True, sql_insert_or_replace row rows))"

text \<open>The loop inside the transaction of \<open>insertInspectionsBatch\<close>: a record whose
  insert raises is logged and skipped.\<close>

fun insertLoop :: "SewerInspection list \<Rightarrow> nat \<Rightarrow> Row list \<Rightarrow> nat \<times> Row list" where
  "insertLoop [] insertedCount rows = (insertedCount, rows)"
| "insertLoop (inspection # rest) insertedCount rows =
     (case insertInspection inspection rows of
        Inl e \<Rightarrow> insertLoop rest insertedCount rows
      | Inr (changed, rows') \<Rightarrow>
          insertLoop rest (if changed then Suc insertedCount else insertedCount) rows')"

section \<open>Batch importer (lib/database/importer.ts)\<close>

record ImportOptions =
  batchSize :: nat
  skipDuplicates :: bool
  validateData :: bool

definition DEFAULT_OPTIONS :: ImportOptions where
  "DEFAULT_OPTIONS = \<lparr> batchSize = 100, skipDuplicates = True, validateData = True \<rparr>"

text \<open>The counters and the status of \<open>ImportProgress\<close>; the file counters and the dates
  are left out.\<close>

record ImportProgress =
  fileName :: string
  recordsProcessed :: nat
  recordsImported :: nat
  errors :: nat
  status :: Status
  errorMessage :: "error option"

text \<open>
  What a run depends on besides its arguments: the remote store; the decode call
  (counted from 0) during which \<open>stop()\<close> is invoked, if any (the store is synchronous,
  so the fetch is the only point where another request can run); which batches the
  storage layer fails to commit; and the clock at the start and at the end of the run.
\<close>

record Env =
  s3 :: bucket
  stopDuring :: "nat option"
  txFails :: "SewerInspection list \<Rightarrow> bool"
  startClock :: int
  endClock :: int

definition insertInspectionsBatch ::
  "Env \<Rightarrow> SewerInspection list \<Rightarrow> Row list \<Rightarrow> error + (nat \<times> Row list)" where
  "insertInspectionsBatch env inspectionBatch rows =
     (if txFails env inspectionBatch then Inl TransactionError
      else Inr (insertLoop inspectionBatch 0 rows))"

text \<open>The importer object's fields and the locals of \<open>importFromS3\<close> that change during
  a run, with the list of decode calls made (file name, limit, offset).\<close>

record ImportState =
  progress :: ImportProgress
  db :: Database
  isRunning :: bool
  shouldStop :: bool
  decodeCalls :: "(string \<times> nat \<times> nat) list"

text \<open>\<open>array.slice(i, j)\<close>.\<close>

definition slice :: "'a list \<Rightarrow> nat \<Rightarrow> nat \<Rightarrow> 'a list" where
  "slice array i j = take (j - i) (drop i array)"

function batchesFrom :: "'a list \<Rightarrow> nat \<Rightarrow> nat \<Rightarrow> 'a list list" where
  "batchesFrom array bsize i =
     (if i < length array \<and> 0 < bsize
      then slice array i (i + bsize) # batchesFrom array bsize (i + bsize)
      else [])"
  by pat_completeness auto
termination
  by (relation "measure (\<lambda>(array, bsize, i). length array - i)") auto

text \<open>\<open>createBatches\<close>: with a batch size of 0 the loop \<open>i += batchSize\<close> never ends on a
  non-empty array; that is \<open>None\<close>.\<close>

definition createBatches :: "'a list \<Rightarrow> nat \<Rightarrow> 'a list list option" where
  "createBatches array bsize =
     (if bsize = 0 \<and> array \<noteq> [] then None else Some (batchesFrom array bsize 0))"

text \<open>\<open>filterDuplicates\<close>: the ids of the batch that the table already holds are
  removed.  Binding an \<open>undefined\<close> id raises; the catch returns all the records.\<close>

definition filterDuplicates :: "SewerInspection list \<Rightarrow> Row list \<Rightarrow> SewerInspection list" where
  "filterDuplicates records rows =
     (if records = [] then records
      else if list_ex (\<lambda>r. insp_id r = None) records then records
      else
        let ids = map insp_id records;
            existingIds = map id_col (filter (\<lambda>row. Some (id_col row) \<in> set ids) rows)
        in filter (\<lambda>record. \<not> (case insp_id record of None \<Rightarrow> False
                                  | Some i \<Rightarrow> i \<in> set existingIds)) records)"

text \<open>\<open>ORDER BY key DESC\<close>, ties in storage order.\<close>

definition sql_order_by_desc :: "('a \<Rightarrow> int) \<Rightarrow> 'a list \<Rightarrow> 'a list" where
  "sql_order_by_desc key rows = sort_key (\<lambda>r. - key r) rows"

definition resumable_status :: "Status \<Rightarrow> bool" where
  "resumable_status s = (s = Running \<or> s = Paused \<or> s = Failed)"

definition getResumableImports :: "Database \<Rightarrow> ImportLogRow list" where
  "getResumableImports d =
     sql_order_by_desc started_at
       (filter (\<lambda>r. resumable_status (status_col r) \<and> completed_at r = None) (import_log d))"

definition calculateResumeOffset :: "Database \<Rightarrow> string \<Rightarrow> nat" where
  "calculateResumeOffset d fname =
     (case sql_order_by_desc started_at
             (filter (\<lambda>r. source_file r = fname \<and> resumable_status (status_col r)) (import_log d)) of
        [] \<Rightarrow> 0
      | r # _ \<Rightarrow> records_processed r)"

definition canResumeImport :: "Database \<Rightarrow> string \<Rightarrow> bool" where
  "canResumeImport d fname = (0 < calculateResumeOffset d fname)"

definition startImportLog :: "string \<Rightarrow> int \<Rightarrow> Database \<Rightarrow> nat \<times> Database" where
  "startImportLog fname now d =
     (let newId = Suc (fold max (map log_id (import_log d)) 0)
      in (newId,
          d\<lparr>import_log := import_log d @
              [\<lparr> log_id = newId, source_file = fname, started_at = now, completed_at = None,
                 records_processed = 0, records_imported = 0, errors_col = 0,
                 status_col = Running, error_message = None \<rparr>]\<rparr>))"

definition updateImportLog :: "nat \<Rightarrow> ImportProgress \<Rightarrow> Database \<Rightarrow> Database" where
  "updateImportLog logId p d =
     d\<lparr>import_log :=
         map (\<lambda>r. if log_id r = logId
                  then r\<lparr>records_processed := recordsProcessed p,
                         records_imported := recordsImported p,
                         errors_col := errors p, status_col := status p\<rparr>
                  else r) (import_log d)\<rparr>"

definition completeImportLog ::
  "nat \<Rightarrow> ImportProgress \<Rightarrow> error option \<Rightarrow> int \<Rightarrow> Database \<Rightarrow> Database" where
  "completeImportLog logId p err now d =
     d\<lparr>import_log :=
         map (\<lambda>r. if log_id r = logId
                  then r\<lparr>completed_at := Some now,
                         records_processed := recordsProcessed p,
                         records_imported := recordsImported p,
                         errors_col := errors p, status_col := status p,
                         error_message := err\<rparr>
                  else r) (import_log d)\<rparr>"

text \<open>The body of the loop over the batches of a chunk: validate, deduplicate, insert,
  count, checkpoint; the \<open>catch\<close> counts the whole batch as errors.\<close>

definition validBatch :: "ImportOptions \<Rightarrow> SewerInspection list \<Rightarrow> SewerInspection list" where
  "validBatch opts batch = (if validateData opts then filter validateRecord batch else batch)"

definition filteredBatch ::
  "ImportOptions \<Rightarrow> Row list \<Rightarrow> SewerInspection list \<Rightarrow> SewerInspection list" where
  "filteredBatch opts rows batch =
     (if skipDuplicates opts then filterDuplicates (validBatch opts batch) rows
      else validBatch opts batch)"

definition processBatch ::
  "Env \<Rightarrow> ImportOptions \<Rightarrow> nat \<Rightarrow> SewerInspection list \<Rightarrow> ImportState \<Rightarrow> ImportState" where
  "processBatch env opts logId batch st =
     (case insertInspectionsBatch env (filteredBatch opts (inspections (db st)) batch)
             (inspections (db st)) of
        Inl e \<Rightarrow>
          st\<lparr>progress := (progress st)\<lparr>errors := errors (progress st) + length batch\<rparr>\<rparr>
      | Inr (insertedCount, rows') \<Rightarrow>
          let p = (progress st)
                    \<lparr>recordsProcessed := recordsProcessed (progress st) + length batch,
                     recordsImported := recordsImported (progress st) + insertedCount,
                     errors := errors (progress st) + (length batch - insertedCount)\<rparr>
          in st\<lparr>progress := p,
                db := updateImportLog logId p ((db st)\<lparr>inspections := rows'\<rparr>)\<rparr>)"

fun forBatches ::
  "Env \<Rightarrow> ImportOptions \<Rightarrow> nat \<Rightarrow> SewerInspection list list \<Rightarrow> ImportState \<Rightarrow> ImportState" where
  "forBatches env opts logId [] st = st"
| "forBatches env opts logId (batch # batches) st =
     (if shouldStop st then st
      else forBatches env opts logId batches (processBatch env opts logId batch st))"

text \<open>How a loop ends: it never returns, it raises (with the state reached), or it
  falls through.\<close>

datatype 'a outcome = Diverges | Thrown error 'a | Done 'a

definition importChunkSize :: nat where
  "importChunkSize = 200"

lemma length_streamLines:
  "length (streamLines ls limit offset sk col res) \<le> length res + (length ls - (offset - sk))"
proof (induction ls limit offset sk col res rule: streamLines.induct)
  case (1 limit offset sk col res)
  then show ?case by simp
next
  case (2 ls limit offset sk col res)
  then show ?case by simp
next
  case (3 ls limit offset sk col res)
  then show ?case by (simp; linarith?)
next
  case (4 r ls limit offset sk col res)
  then show ?case by (simp; linarith?)
qed

lemma streamFromS3_length:
  assumes "streamFromS3 b fname limit offset = Inr chunk" and "b fname = Some ls"
  shows "offset + length chunk \<le> length ls \<or> chunk = []"
proof -
  have "chunk = streamLines ls limit offset 0 0 []"
    using assms by (simp add: streamFromS3_def)
  then have "length chunk \<le> length ls - offset"
    using length_streamLines [of ls limit offset 0 0 "[]"] by simp
  then show ?thesis by (cases chunk) auto
qed

lemma streamFromS3_progress:
  assumes "streamFromS3 b fname limit offset = Inr chunk" and "chunk \<noteq> []"
  shows "(case b fname of None \<Rightarrow> 0 | Some ls \<Rightarrow> length ls) - (offset + length chunk)
           < (case b fname of None \<Rightarrow> 0 | Some ls \<Rightarrow> length ls) - offset"
proof -
  obtain ls where ls: "b fname = Some ls"
    using assms(1) by (auto simp: streamFromS3_def split: option.splits)
  have "offset + length chunk \<le> length ls"
    using streamFromS3_length [OF assms(1) ls] assms(2) by simp
  moreover have "0 < length chunk" using assms(2) by (cases chunk) simp_all
  ultimately have "length ls - (offset + length chunk) < length ls - offset" by linarith
  then show ?thesis using ls by simp
qed

text \<open>
  The \<open>while (!this.shouldStop)\<close> loop of \<open>importFromS3\<close>.  Each decode call is
  recorded, and a stop request that arrives during it sets \<open>shouldStop\<close>.
\<close>

function importLoop ::
  "Env \<Rightarrow> ImportOptions \<Rightarrow> string \<Rightarrow> nat \<Rightarrow> nat \<Rightarrow> ImportState \<Rightarrow> ImportState outcome" where
  "importLoop env opts fname logId offset st =
     (if shouldStop st then Done st
      else
        let st1 = st\<lparr>decodeCalls := decodeCalls st @ [(fname, importChunkSize, offset)],
                     shouldStop := (stopDuring env = Some (length (decodeCalls st)))\<rparr>
        in case streamFromS3 (s3 env) fname importChunkSize offset of
             Inl e \<Rightarrow> Thrown e st1
           | Inr chunk \<Rightarrow>
               if chunk = [] then Done st1
               else
                 (case createBatches chunk (batchSize opts) of
                    None \<Rightarrow> Diverges
                  | Some batches \<Rightarrow>
                      let st2 = forBatches env opts logId batches st1
                      in if length chunk < importChunkSize then Done st2
                         else importLoop env opts fname logId (offset + length chunk) st2))"
  by pat_completeness auto
termination
proof (relation "measure (\<lambda>(env, opts, fname, logId, offset, st).
                   (case s3 env fname of None \<Rightarrow> 0 | Some ls \<Rightarrow> length ls) - offset)",
       goal_cases)
  case 1
  then show ?case by simp
next
  case (2 env opts fname logId offset st st1 chunk batches st2)
  obtain ls where ls: "s3 env fname = Some ls"
    using 2 by (auto simp: streamFromS3_def split: option.splits)
  have "streamFromS3 (s3 env) fname importChunkSize offset = Inr chunk"
    using 2 by simp
  then have "offset + length chunk \<le> length ls \<or> chunk = []"
    using ls by (rule streamFromS3_length)
  then have "offset + length chunk \<le> length ls"
    using 2 by simp
  moreover have "0 < length chunk" using 2 by (cases chunk) simp_all
  ultimately have "length ls - (offset + length chunk) < length ls - offset" by linarith
  then show ?case using ls by simp
qed

declare importLoop.simps [simp del]
declare batchesFrom.simps [simp del]

text \<open>
  \<open>importFromS3\<close> in three parts.  \<open>resolveStart\<close> is the code before the \<open>try\<close>: the
  starting offset, the checkpoint row (an existing one when resuming from a positive
  offset, a new one otherwise) and the initial progress; it yields the row's id, the
  offset and the initial state.  \<open>finalizeImport\<close> is the code after the loop and the
  \<open>catch\<close> and \<open>finally\<close> blocks.  \<open>None\<close> is a run that never returns.
\<close>

definition resolveStart :: "Env \<Rightarrow> string \<Rightarrow> bool \<Rightarrow> Database \<Rightarrow> nat \<times> nat \<times> ImportState" where
  "resolveStart env fname resume d =
     (let resuming = (resume \<or> canResumeImport d fname);
          offset = (if resuming then calculateResumeOffset d fname else 0);
          existingProgress =
            (if resuming \<and> 0 < offset
             then find (\<lambda>imp. source_file imp = fname) (getResumableImports d)
             else None);
          (logId, d1) = (case existingProgress of
                           Some e \<Rightarrow> (log_id e, d)
                         | None \<Rightarrow> startImportLog fname (startClock env) d);
          p0 = \<lparr> fileName = fname,
                 recordsProcessed = (case existingProgress of
                                       Some e \<Rightarrow> records_processed e | None \<Rightarrow> offset),
                 recordsImported = (case existingProgress of
                                      Some e \<Rightarrow> records_imported e | None \<Rightarrow> 0),
                 errors = (case existingProgress of Some e \<Rightarrow> errors_col e | None \<Rightarrow> 0),
                 status = Running, errorMessage = None \<rparr>
      in (logId, offset,
          \<lparr> progress = p0, db = d1, isRunning = True, shouldStop = False, decodeCalls = [] \<rparr>))"

definition finalizeImport :: "Env \<Rightarrow> nat \<Rightarrow> ImportState outcome \<Rightarrow> ImportState option" where
  "finalizeImport env logId out =
     (case out of
        Diverges \<Rightarrow> None
      | Done st \<Rightarrow>
          let p = (progress st)\<lparr>status := (if shouldStop st then Paused else Completed)\<rparr>
          in Some (st\<lparr>progress := p,
                     db := completeImportLog logId p None (endClock env) (db st),
                     isRunning := False\<rparr>)
      | Thrown e st \<Rightarrow>
          let p = (progress st)\<lparr>status := Failed, errorMessage := Some e\<rparr>
          in Some (st\<lparr>progress := p,
                     db := completeImportLog logId p (Some e) (endClock env) (db st),
                     isRunning := False\<rparr>))"

definition importFromS3 ::
  "Env \<Rightarrow> ImportOptions \<Rightarrow> string \<Rightarrow> bool \<Rightarrow> Database \<Rightarrow> ImportState option" where
  "importFromS3 env opts fname resume d =
     (case resolveStart env fname resume d of
        (logId, offset, st0) \<Rightarrow>
          finalizeImport env logId (importLoop env opts fname logId offset st0))"

section \<open>Streaming-scan search (lib/search.ts)\<close>

text \<open>\<open>toLowerCase\<close> and \<open>includes\<close> on ASCII strings.\<close>

definition toLowerChar :: "char \<Rightarrow> char" where
  "toLowerChar c =
     (let n = (of_char c :: nat) in if 65 \<le> n \<and> n \<le> 90 then char_of (n + 32) else c)"

definition toLowerCase :: "string \<Rightarrow> string" where
  "toLowerCase s = map toLowerChar s"

fun startsWith :: "string \<Rightarrow> string \<Rightarrow> bool" where
  "startsWith s [] = True"
| "startsWith [] (c # t) = False"
| "startsWith (d # s) (c # t) = (d = c \<and> startsWith s t)"

fun includes_str :: "string \<Rightarrow> string \<Rightarrow> bool" where
  "includes_str [] t = (t = [])"
| "includes_str (d # s) t = (startsWith (d # s) t \<or> includes_str s t)"

text \<open>\<open>matchesFilters\<close>: a text filter is applied only when both the filter and the
  record's field are truthy; a comparison with a missing score is false.\<close>

definition matchesFilters :: "SewerInspection \<Rightarrow> SearchFilters \<Rightarrow> bool" where
  "matchesFilters inspection filters =
     (if (case (cityF filters, loc_city inspection) of
            (Some fc, Some c) \<Rightarrow>
              fc \<noteq> [] \<and> c \<noteq> [] \<and> \<not> includes_str (toLowerCase c) (toLowerCase fc)
          | _ \<Rightarrow> False) then False
      else if (case (stateF filters, loc_state inspection) of
            (Some fs, Some s) \<Rightarrow> fs \<noteq> [] \<and> s \<noteq> [] \<and> toLowerCase s \<noteq> toLowerCase fs
          | _ \<Rightarrow> False) then False
      else if (case (materialF filters, pipe_material inspection) of
            (Some fm, Some m) \<Rightarrow>
              fm \<noteq> [] \<and> m \<noteq> [] \<and> \<not> includes_str (toLowerCase m) (toLowerCase fm)
          | _ \<Rightarrow> False) then False
      else if (case (scoreMin filters, inspection_score inspection) of
            (Some lo, Some score) \<Rightarrow> score < lo | _ \<Rightarrow> False) then False
      else if (case (scoreMax filters, inspection_score inspection) of
            (Some hi, Some score) \<Rightarrow> hi < score | _ \<Rightarrow> False) then False
      else if requiresRepair filters \<noteq> None \<and>
              requires_repair inspection \<noteq> requiresRepair filters then False
      else True)"

record FilterPredicates =
  hasCity :: bool
  cityP :: "string option"
  hasState :: bool
  stateP :: "string option"
  hasMaterial :: bool
  materialP :: "string option"
  hasScoreMin :: bool
  scoreMinP :: int
  hasScoreMax :: bool
  scoreMaxP :: int
  hasRequiresRepair :: bool
  requiresRepairP :: "bool option"

text \<open>\<open>filters.scoreMin || 0\<close> and \<open>filters.scoreMax || 100\<close>: a bound of 0 is falsy.\<close>

definition compileFilterPredicates :: "SearchFilters \<Rightarrow> FilterPredicates" where
  "compileFilterPredicates filters =
     \<lparr> hasCity = truthy (cityF filters),
       cityP = map_option toLowerCase (cityF filters),
       hasState = truthy (stateF filters),
       stateP = map_option toLowerCase (stateF filters),
       hasMaterial = truthy (materialF filters),
       materialP = map_option toLowerCase (materialF filters),
       hasScoreMin = (scoreMin filters \<noteq> None),
       scoreMinP = (case scoreMin filters of None \<Rightarrow> 0 | Some lo \<Rightarrow> if lo = 0 then 0 else lo),
       hasScoreMax = (scoreMax filters \<noteq> None),
       scoreMaxP = (case scoreMax filters of None \<Rightarrow> 100 | Some hi \<Rightarrow> if hi = 0 then 100 else hi),
       hasRequiresRepair = (requiresRepair filters \<noteq> None),
       requiresRepairP = requiresRepair filters \<rparr>"

text \<open>\<open>fastFilter\<close>: here a record whose field is missing fails an active text filter
  (\<open>!undefined\<close> is true).\<close>

definition fastFilter :: "SewerInspection \<Rightarrow> FilterPredicates \<Rightarrow> bool" where
  "fastFilter inspection predicates =
     (if hasCity predicates \<and>
         \<not> (case (loc_city inspection, cityP predicates) of
               (Some c, Some pc) \<Rightarrow> includes_str (toLowerCase c) pc | _ \<Rightarrow> False) then False
      else if hasState predicates \<and>
              map_option toLowerCase (loc_state inspection) \<noteq> stateP predicates then False
      else if hasMaterial predicates \<and>
         \<not> (case (pipe_material inspection, materialP predicates) of
               (Some m, Some pm) \<Rightarrow> includes_str (toLowerCase m) pm | _ \<Rightarrow> False) then False
      else if hasScoreMin predicates \<and>
              (case inspection_score inspection of
                 None \<Rightarrow> False | Some score \<Rightarrow> score < scoreMinP predicates) then False
      else if hasScoreMax predicates \<and>
              (case inspection_score inspection of
                 None \<Rightarrow> False | Some score \<Rightarrow> scoreMaxP predicates < score) then False
      else if hasRequiresRepair predicates \<and>
              requires_repair inspection \<noteq> requiresRepairP predicates then False
      else True)"

text \<open>A decode call of the search: file, limit, offset, and the records it yielded.\<close>

type_synonym DecodeCall = "string \<times> nat \<times> nat \<times> SewerInspection list"

definition searchChunkSize :: nat where
  "searchChunkSize = 500"

text \<open>The predicate of \<open>chunk.filter\<close> in \<open>streamWithOffsetAndLimit\<close>.\<close>

definition chunkFilter :: "SearchFilters \<Rightarrow> SewerInspection \<Rightarrow> bool" where
  "chunkFilter filters inspection =
     (if \<not> fastFilter inspection (compileFilterPredicates filters) then False
      else matchesFilters inspection filters)"

text \<open>The \<open>for\<close> loop over the filtered chunk; the flag tells whether it left through the
  \<open>return\<close>.\<close>

fun collectLoop ::
  "SewerInspection list \<Rightarrow> nat \<Rightarrow> nat \<Rightarrow> nat \<Rightarrow> SewerInspection list \<Rightarrow>
   bool \<times> nat \<times> SewerInspection list" where
  "collectLoop [] skipCount limitCount localSkipped matches = (False, localSkipped, matches)"
| "collectLoop (inspection # rest) skipCount limitCount localSkipped matches =
     (if localSkipped < skipCount
      then collectLoop rest skipCount limitCount (Suc localSkipped) matches
      else if length matches < limitCount
      then collectLoop rest skipCount limitCount localSkipped (matches @ [inspection])
      else (True, localSkipped, matches))"

text \<open>The \<open>while (matches.length < limitCount)\<close> loop of \<open>streamWithOffsetAndLimit\<close>; the
  result is \<open>matches\<close>, \<open>totalProcessed\<close> and the decode calls made.\<close>

function streamLoop ::
  "bucket \<Rightarrow> string \<Rightarrow> SearchFilters \<Rightarrow> nat \<Rightarrow> nat \<Rightarrow> nat \<Rightarrow> nat \<Rightarrow>
   SewerInspection list \<Rightarrow> DecodeCall list \<Rightarrow>
   error + (SewerInspection list \<times> nat \<times> DecodeCall list)" where
  "streamLoop b fname filters skipCount limitCount processed localSkipped matches calls =
     (if \<not> length matches < limitCount then Inr (matches, processed, calls)
      else
        case streamFromS3 b fname searchChunkSize processed of
          Inl e \<Rightarrow> Inl e
        | Inr chunk \<Rightarrow>
            let calls' = calls @ [(fname, searchChunkSize, processed, chunk)]
            in if chunk = [] then Inr (matches, processed, calls')
               else
                 let filteredChunk = filter (chunkFilter filters) chunk;
                     processed' = processed + length chunk
                 in case collectLoop filteredChunk skipCount limitCount localSkipped matches of
                      (returned, localSkipped', matches') \<Rightarrow>
                        if returned then Inr (matches', processed', calls')
                        else if length chunk < searchChunkSize
                        then Inr (matches', processed', calls')
                        else streamLoop b fname filters skipCount limitCount processed'
                               localSkipped' matches' calls')"
  by pat_completeness auto
termination
proof (relation "measure (\<lambda>(b, fname, filters, skipCount, limitCount, processed, rest).
                   (case b fname of None \<Rightarrow> 0 | Some ls \<Rightarrow> length ls) - processed)",
       goal_cases)
  case 1
  then show ?case by simp
next
  case 2
  then show ?case by (simp add: streamFromS3_progress)
qed

declare streamLoop.simps [simp del]

definition streamWithOffsetAndLimit ::
  "bucket \<Rightarrow> string \<Rightarrow> SearchFilters \<Rightarrow> nat \<Rightarrow> nat \<Rightarrow> nat \<Rightarrow>
   error + (SewerInspection list \<times> nat \<times> DecodeCall list)" where
  "streamWithOffsetAndLimit b fname filters skipCount limitCount globalOffset =
     streamLoop b fname filters skipCount limitCount 0 0 [] []"

definition filesToSearch :: "string list" where
  "filesToSearch =
     [''sewer-inspections-part1.jsonl'', ''sewer-inspections-part2.jsonl'',
      ''sewer-inspections-part3.jsonl'', ''sewer-inspections-part4.jsonl'',
      ''sewer-inspections-part5.jsonl'']"

text \<open>The loop over the files in \<open>searchInspections\<close>, with \<open>results\<close>,
  \<open>totalMatchesFound\<close>, \<open>recordsSkipped\<close> and the decode calls.\<close>

fun scanFiles ::
  "bucket \<Rightarrow> SearchFilters \<Rightarrow> nat \<Rightarrow> nat \<Rightarrow> string list \<Rightarrow> SewerInspection list \<Rightarrow> nat \<Rightarrow> nat \<Rightarrow>
   DecodeCall list \<Rightarrow> error + (SewerInspection list \<times> nat \<times> nat \<times> DecodeCall list)" where
  "scanFiles b filters offset pageSize [] results totalMatchesFound recordsSkipped calls =
     Inr (results, totalMatchesFound, recordsSkipped, calls)"
| "scanFiles b filters offset pageSize (fname # rest) results totalMatchesFound recordsSkipped calls =
     (if pageSize \<le> length results
      then Inr (results, totalMatchesFound, recordsSkipped, calls)
      else
        case streamWithOffsetAndLimit b fname filters (offset - recordsSkipped)
               (pageSize - length results) recordsSkipped of
          Inl e \<Rightarrow> Inl e
        | Inr (matches, totalProcessed, calls') \<Rightarrow>
            scanFiles b filters offset pageSize rest (results @ matches)
              (totalMatchesFound + length matches) (recordsSkipped + totalProcessed)
              (calls @ calls'))"

text \<open>The sampling loop of \<open>estimateTotalCount\<close>; a fetch error leaves it with the
  counters reached.\<close>

fun sampleFiles ::
  "bucket \<Rightarrow> SearchFilters \<Rightarrow> string list \<Rightarrow> nat \<Rightarrow> nat \<Rightarrow> DecodeCall list \<Rightarrow>
   error option \<times> nat \<times> nat \<times> DecodeCall list" where
  "sampleFiles b filters [] totalSampled totalMatches calls =
     (None, totalSampled, totalMatches, calls)"
| "sampleFiles b filters (fname # rest) totalSampled totalMatches calls =
     (case streamFromS3 b fname searchChunkSize 0 of
        Inl e \<Rightarrow> (Some e, totalSampled, totalMatches, calls)
      | Inr sample \<Rightarrow>
          sampleFiles b filters rest (totalSampled + length sample)
            (totalMatches + length (filter (\<lambda>i. matchesFilters i filters) sample))
            (calls @ [(fname, searchChunkSize, 0, sample)]))"

text \<open>
  \<open>estimateTotalCount\<close>.  \<open>Math.round(matchRatio * 5000 * files)\<close> is computed here in
  exact arithmetic (half rounds up); the floating-point product can differ from it in
  the last place, and nothing below depends on the value of the estimate beyond the
  \<open>Math.max\<close> with the sample matches.  The \<open>catch\<close> returns the sample matches.
\<close>

definition estimateTotalCount ::
  "bucket \<Rightarrow> SearchFilters \<Rightarrow> string list \<Rightarrow> nat \<times> DecodeCall list" where
  "estimateTotalCount b filters files =
     (case sampleFiles b filters files 0 0 [] of
        (Some e, totalSampled, totalMatches, calls) \<Rightarrow> (totalMatches, calls)
      | (None, totalSampled, totalMatches, calls) \<Rightarrow>
          if totalSampled = 0 then (0, calls)
          else
            let estimatedTotal =
                  (2 * totalMatches * 5000 * length files + totalSampled) div (2 * totalSampled)
            in (max totalMatches estimatedTotal, calls))"

record SearchResult =
  results :: "SewerInspection list"
  totalCount :: nat

text \<open>The streaming search: its result, the value of \<open>totalMatchesFound\<close> at the end of
  the scan, the decode calls of the scan and those of the estimate.\<close>

definition searchInspections_S3 ::
  "bucket \<Rightarrow> SearchFilters \<Rightarrow> nat \<Rightarrow> nat \<Rightarrow>
   error + (SearchResult \<times> nat \<times> DecodeCall list \<times> DecodeCall list)" where
  "searchInspections_S3 b filters page pageSize =
     (let offset = (page - 1) * pageSize
      in case scanFiles b filters offset pageSize filesToSearch [] 0 0 [] of
           Inl e \<Rightarrow> Inl SearchFailed
         | Inr (found, totalMatchesFound, recordsSkipped, scanCalls) \<Rightarrow>
             (case estimateTotalCount b filters filesToSearch of
                (estimatedTotalCount, estimateCalls) \<Rightarrow>
                  Inr (\<lparr> results = found, totalCount = estimatedTotalCount \<rparr>,
                       totalMatchesFound, scanCalls, estimateCalls)))"

section \<open>Indexed search (lib/database/sqlite.ts, lib/database/search.ts)\<close>

text \<open>SQLite's \<open>LIKE\<close>: \<open>%\<close> matches any run of characters, \<open>_\<close> any one character, and
  ASCII letters match without regard to case.  The first argument is the pattern.\<close>

fun sql_like :: "string \<Rightarrow> string \<Rightarrow> bool" where
  "sql_like [] s = (s = [])"
| "sql_like (p # ps) s =
     (if p = CHR ''%'' then
        (sql_like ps s \<or> (case s of [] \<Rightarrow> False | c # s' \<Rightarrow> sql_like (p # ps) s'))
      else if p = CHR ''_'' then
        (case s of [] \<Rightarrow> False | c # s' \<Rightarrow> sql_like ps s')
      else
        (case s of [] \<Rightarrow> False | c # s' \<Rightarrow> toLowerChar p = toLowerChar c \<and> sql_like ps s'))"

text \<open>The \<open>conditions\<close> array that \<open>getInspectionCount\<close> and \<open>getInspections\<close> build, each
  condition with its bound parameter; \<open>state = ?\<close> is SQLite's binary comparison.\<close>

definition whereConditions :: "SearchFilters \<Rightarrow> (Row \<Rightarrow> bool) list" where
  "whereConditions filters =
     (case cityF filters of
        Some fc \<Rightarrow> if fc \<noteq> [] then [\<lambda>row. sql_like (''%'' @ fc @ ''%'') (city_col row)] else []
      | None \<Rightarrow> []) @
     (case stateF filters of
        Some fs \<Rightarrow> if fs \<noteq> [] then [\<lambda>row. state_col row = fs] else []
      | None \<Rightarrow> []) @
     (case materialF filters of
        Some fm \<Rightarrow> if fm \<noteq> [] then [\<lambda>row. sql_like (''%'' @ fm @ ''%'') (material_col row)] else []
      | None \<Rightarrow> []) @
     (case scoreMin filters of
        Some lo \<Rightarrow> [\<lambda>row. lo \<le> inspection_score_col row] | None \<Rightarrow> []) @
     (case scoreMax filters of
        Some hi \<Rightarrow> [\<lambda>row. inspection_score_col row \<le> hi] | None \<Rightarrow> []) @
     (case requiresRepair filters of
        Some b \<Rightarrow> [\<lambda>row. requires_repair_col row = b] | None \<Rightarrow> [])"

text \<open>\<open>WHERE c1 AND c2 ...\<close> (no clause when there is no condition), and
  \<open>LIMIT ? OFFSET ?\<close>: a negative limit is no limit, a negative offset is 0.\<close>

definition sql_where :: "('a \<Rightarrow> bool) list \<Rightarrow> 'a list \<Rightarrow> 'a list" where
  "sql_where conditions rows = filter (\<lambda>row. list_all (\<lambda>c. c row) conditions) rows"

definition sql_limit_offset :: "int \<Rightarrow> int \<Rightarrow> 'a list \<Rightarrow> 'a list" where
  "sql_limit_offset lim off rows =
     (let rest = drop (nat off) rows in if lim < 0 then rest else take (nat lim) rest)"

definition getInspectionCount :: "SearchFilters \<Rightarrow> Database \<Rightarrow> nat" where
  "getInspectionCount filters d = length (sql_where (whereConditions filters) (inspections d))"

definition getInspections :: "SearchFilters \<Rightarrow> int \<Rightarrow> int \<Rightarrow> Database \<Rightarrow> SewerInspection list" where
  "getInspections filters page pageSize d =
     (let offset = (page - 1) * pageSize
      in map transformDbToInspection
           (sql_limit_offset pageSize offset
              (sql_order_by_desc timestamp_utc_col
                 (sql_where (whereConditions filters) (inspections d)))))"

definition searchInspections_db :: "SearchFilters \<Rightarrow> int \<Rightarrow> int \<Rightarrow> Database \<Rightarrow> SearchResult" where
  "searchInspections_db filters page pageSize d =
     (let count = getInspectionCount filters d;
          found = getInspections filters page pageSize d
      in \<lparr> results = found, totalCount = count \<rparr>)"

section \<open>Import route (app/api/import/route.ts)\<close>

text \<open>
  The importer objects of the process, by address, with the two flags of each, and the
  module variable \<open>currentImporter\<close>.  A request handler and the synchronous start of an
  import are state transformers; \<open>beginImportFromS3\<close> is \<open>importFromS3\<close> up to its first
  \<open>await\<close>, and \<open>endImportFromS3\<close> its \<open>finally\<close> block.
\<close>

record DataImporter =
  importerRunning :: bool
  importerShouldStop :: bool

record RouteState =
  importers :: "DataImporter list"
  currentImporter :: "nat option"

datatype Response = Response nat string

definition newDataImporter :: "RouteState \<Rightarrow> nat \<times> RouteState" where
  "newDataImporter rs =
     (length (importers rs),
      rs\<lparr>importers := importers rs @ [\<lparr> importerRunning = False, importerShouldStop = False \<rparr>]\<rparr>)"

definition isImportRunning :: "RouteState \<Rightarrow> nat \<Rightarrow> bool" where
  "isImportRunning rs a = (a < length (importers rs) \<and> importerRunning (importers rs ! a))"

definition beginImportFromS3 :: "nat \<Rightarrow> RouteState \<Rightarrow> RouteState" where
  "beginImportFromS3 a rs =
     rs\<lparr>importers := (importers rs)[a := \<lparr> importerRunning = True, importerShouldStop = False \<rparr>]\<rparr>"

definition endImportFromS3 :: "nat \<Rightarrow> RouteState \<Rightarrow> RouteState" where
  "endImportFromS3 a rs =
     rs\<lparr>importers := (importers rs)[a := (importers rs ! a)\<lparr>importerRunning := False\<rparr>]\<rparr>"

text \<open>\<open>importAllFiles\<close> up to its first \<open>await\<close>: unless \<open>this.shouldStop\<close> is set, a new
  importer is made for the first file and its \<open>importFromS3\<close> is started.\<close>

definition beginImportAllFiles :: "nat \<Rightarrow> RouteState \<Rightarrow> RouteState" where
  "beginImportAllFiles a rs =
     (if a < length (importers rs) \<and> importerShouldStop (importers rs ! a) then rs
      else case newDataImporter rs of (child, rs') \<Rightarrow> beginImportFromS3 child rs')"

definition startImport :: "string option \<Rightarrow> RouteState \<Rightarrow> Response \<times> RouteState" where
  "startImport fileNameArg rs =
     (if (case currentImporter rs of None \<Rightarrow> False | Some a \<Rightarrow> isImportRunning rs a)
      then (Response 409 ''Import is already running'', rs)
      else
        case newDataImporter rs of
          (a, rs1) \<Rightarrow>
            let rs2 = rs1\<lparr>currentImporter := Some a\<rparr>;
                rs3 = (if truthy fileNameArg then beginImportFromS3 a rs2
                       else beginImportAllFiles a rs2)
            in (Response 200 ''Import started successfully'', rs3))"

definition anyImportRunning :: "RouteState \<Rightarrow> bool" where
  "anyImportRunning rs = list_ex importerRunning (importers rs)"

definition initialRoute :: RouteState where
  "initialRoute = \<lparr> importers = [], currentImporter = None \<rparr>"

section \<open>Facts about the store and the importer\<close>

text \<open>The identifiers the table holds; whether the values of a record can be bound, so
  that its insert does not raise; and the identifier under which a record is stored.\<close>

definition row_ids :: "Row list \<Rightarrow> string set" where
  "row_ids rows = set (map id_col rows)"

definition bindable :: "SewerInspection \<Rightarrow> bool" where
  "bindable r = (case transformInspectionForDb r of Inl e \<Rightarrow> False | Inr row \<Rightarrow> True)"

definition stored_id :: "SewerInspection \<Rightarrow> string" where
  "stored_id r = safeValue (insp_id r) []"

lemma transform_id: "transformInspectionForDb r = Inr row \<Longrightarrow> id_col row = stored_id r"
  by (auto simp: transformInspectionForDb_def stored_id_def split: option.splits)

lemma row_ids_insert_or_replace:
  "row_ids (sql_insert_or_replace row rows) = insert (id_col row) (row_ids rows)"
  by (auto simp: row_ids_def sql_insert_or_replace_def)

lemma distinct_insert_or_replace:
  "distinct (map id_col rows) \<Longrightarrow> distinct (map id_col (sql_insert_or_replace row rows))"
  by (auto simp: sql_insert_or_replace_def distinct_map_filter)

lemma insertInspection_cases:
  "insertInspection r rows =
     (if bindable r
      then Inr (True, sql_insert_or_replace (projr (transformInspectionForDb r)) rows)
      else Inl (projl (transformInspectionForDb r)))"
  by (auto simp: insertInspection_def bindable_def split: sum.splits)

lemma insertLoop_count:
  "fst (insertLoop rs n rows) = n + length (filter bindable rs)"
  by (induction rs arbitrary: n rows) (auto simp: insertInspection_cases)

lemma insertLoop_ids:
  "row_ids (snd (insertLoop rs n rows)) = row_ids rows \<union> stored_id ` {r \<in> set rs. bindable r}"
proof (induction rs arbitrary: n rows)
  case Nil
  then show ?case by simp
next
  case (Cons r rs)
  show ?case
  proof (cases "bindable r")
    case True
    then obtain row where row: "transformInspectionForDb r = Inr row"
      by (auto simp: bindable_def split: sum.splits)
    then show ?thesis
      using True Cons.IH [of "Suc n" "sql_insert_or_replace row rows"]
      by (auto simp: insertInspection_cases row_ids_insert_or_replace transform_id)
  next
    case False
    then show ?thesis using Cons.IH [of n rows] by (auto simp: insertInspection_cases)
  qed
qed

lemma insertLoop_distinct:
  "distinct (map id_col rows) \<Longrightarrow> distinct (map id_col (snd (insertLoop rs n rows)))"
  by (induction rs arbitrary: n rows) (auto simp: insertInspection_cases distinct_insert_or_replace)

lemma insertLoop_none:
  "\<forall>r\<in>set rs. \<not> bindable r \<Longrightarrow> insertLoop rs n rows = (n, rows)"
  by (induction rs arbitrary: n rows) (auto simp: insertInspection_cases)

lemma filterDuplicates_subset: "set (filterDuplicates rs rows) \<subseteq> set rs"
  by (auto simp: filterDuplicates_def Let_def)

lemma filterDuplicates_length: "length (filterDuplicates rs rows) \<le> length rs"
  by (auto simp: filterDuplicates_def Let_def)

lemma filterDuplicates_removed:
  "r \<in> set rs \<Longrightarrow> r \<notin> set (filterDuplicates rs rows) \<Longrightarrow> stored_id r \<in> row_ids rows"
  by (auto simp: filterDuplicates_def Let_def stored_id_def safeValue_def row_ids_def list_ex_iff
           split: if_splits option.splits)

lemma filterDuplicates_kept:
  "\<forall>r\<in>set rs. insp_id r \<noteq> None \<Longrightarrow> r \<in> set (filterDuplicates rs rows) \<Longrightarrow>
     stored_id r \<notin> row_ids rows"
proof
  assume all: "\<forall>r\<in>set rs. insp_id r \<noteq> None" and kept: "r \<in> set (filterDuplicates rs rows)"
    and "stored_id r \<in> row_ids rows"
  then obtain row where row: "row \<in> set rows" "id_col row = stored_id r"
    by (auto simp: row_ids_def)
  have r: "r \<in> set rs" using kept filterDuplicates_subset by blast
  then obtain i where i: "insp_id r = Some i" using all by auto
  then have si: "stored_id r = i" by (simp add: stored_id_def safeValue_def)
  have "Some (id_col row) \<in> set (map insp_id rs)" using r i si row by force
  then have "i \<in> set (map id_col (filter (\<lambda>row. Some (id_col row) \<in> set (map insp_id rs)) rows))"
    using row si by force
  moreover have "rs \<noteq> []" "\<not> list_ex (\<lambda>r. insp_id r = None) rs"
    using r all by (auto simp: list_ex_iff)
  ultimately show False using kept i by (simp add: filterDuplicates_def Let_def)
qed


text \<open>A record that passes validation, where it is enabled, and whose insert does not
  raise.\<close>

definition insertable :: "ImportOptions \<Rightarrow> SewerInspection \<Rightarrow> bool" where
  "insertable opts r = ((if validateData opts then validateRecord r else True) \<and> bindable r)"

lemma validateRecord_id: "validateRecord r \<Longrightarrow> insp_id r \<noteq> None"
  by (auto simp: validateRecord_def truthy_def split: if_splits option.splits)

lemma processBatch_fields [simp]:
  "shouldStop (processBatch env opts logId batch st) = shouldStop st"
  "decodeCalls (processBatch env opts logId batch st) = decodeCalls st"
  "isRunning (processBatch env opts logId batch st) = isRunning st"
  by (auto simp: processBatch_def Let_def split: sum.splits)

lemma updateImportLog_inspections [simp]:
  "inspections (updateImportLog logId p d) = inspections d"
  by (simp add: updateImportLog_def)

lemma completeImportLog_inspections [simp]:
  "inspections (completeImportLog logId p e now d) = inspections d"
  by (simp add: completeImportLog_def)

lemma validBatch_subset: "set (validBatch opts batch) \<subseteq> set batch"
  by (auto simp: validBatch_def)

lemma validBatch_length: "length (validBatch opts batch) \<le> length batch"
  by (simp add: validBatch_def)


lemma filteredBatch_length:
  "length (filteredBatch opts rows batch) \<le> length (validBatch opts batch)"
  by (simp add: filteredBatch_def filterDuplicates_length)

lemma processBatch_inspections:
  "inspections (db (processBatch env opts logId batch st)) =
     (if txFails env (filteredBatch opts (inspections (db st)) batch) then inspections (db st)
      else snd (insertLoop (filteredBatch opts (inspections (db st)) batch) 0 (inspections (db st))))"
  by (auto simp: processBatch_def Let_def insertInspectionsBatch_def split: sum.splits prod.splits)

lemma processBatch_ids_mono:
  "row_ids (inspections (db st)) \<subseteq> row_ids (inspections (db (processBatch env opts logId batch st)))"
  by (auto simp: processBatch_inspections insertLoop_ids)

lemma processBatch_distinct:
  "distinct (map id_col (inspections (db st))) \<Longrightarrow>
   distinct (map id_col (inspections (db (processBatch env opts logId batch st))))"
  by (auto simp: processBatch_inspections insertLoop_distinct)

lemma processBatch_covers:
  assumes "\<forall>b. \<not> txFails env b" and "r \<in> set batch" and "insertable opts r"
  shows "stored_id r \<in> row_ids (inspections (db (processBatch env opts logId batch st)))"
proof -
  let ?valid = "validBatch opts batch"
  let ?filtered = "filteredBatch opts (inspections (db st)) batch"
  have v: "r \<in> set ?valid" using assms by (auto simp: insertable_def validBatch_def)
  have b: "bindable r" using assms by (simp add: insertable_def)
  have ins: "inspections (db (processBatch env opts logId batch st)) =
               snd (insertLoop ?filtered 0 (inspections (db st)))"
    using assms(1) by (simp add: processBatch_inspections)
  show ?thesis
  proof (cases "r \<in> set ?filtered")
    case True
    then show ?thesis using b unfolding ins insertLoop_ids by blast
  next
    case False
    then have "stored_id r \<in> row_ids (inspections (db st))"
      using v filterDuplicates_removed [of r ?valid "inspections (db st)"]
      by (auto simp: filteredBatch_def split: if_splits)
    then show ?thesis unfolding ins insertLoop_ids by blast
  qed
qed

lemma filteredBatch_unbindable:
  assumes "skipDuplicates opts"
    and "validateData opts \<or> (\<forall>r\<in>set batch. insp_id r \<noteq> None)"
    and "\<forall>r\<in>set batch. insertable opts r \<longrightarrow> stored_id r \<in> row_ids rows"
  shows "\<forall>r\<in>set (filteredBatch opts rows batch). \<not> bindable r"
proof
  let ?valid = "validBatch opts batch"
  fix r assume r: "r \<in> set (filteredBatch opts rows batch)"
  have ids: "\<forall>r\<in>set ?valid. insp_id r \<noteq> None"
    using assms(2) validateRecord_id by (auto simp: validBatch_def split: if_splits)
  have rf: "r \<in> set (filterDuplicates ?valid rows)"
    using r assms(1) by (simp add: filteredBatch_def)
  then have rv: "r \<in> set ?valid" using filterDuplicates_subset by blast
  have "stored_id r \<notin> row_ids rows"
    using filterDuplicates_kept [OF ids rf] .
  moreover have "r \<in> set batch" "if validateData opts then validateRecord r else True"
    using rv by (auto simp: validBatch_def split: if_splits)
  ultimately show "\<not> bindable r" using assms(3) by (auto simp: insertable_def)
qed

lemma processBatch_noop:
  assumes "skipDuplicates opts"
    and "validateData opts \<or> (\<forall>r\<in>set batch. insp_id r \<noteq> None)"
    and "\<forall>r\<in>set batch. insertable opts r \<longrightarrow> stored_id r \<in> row_ids (inspections (db st))"
  shows "inspections (db (processBatch env opts logId batch st)) = inspections (db st) \<and>
         recordsImported (progress (processBatch env opts logId batch st)) =
           recordsImported (progress st)"
proof -
  let ?filtered = "filteredBatch opts (inspections (db st)) batch"
  have il: "insertLoop ?filtered 0 (inspections (db st)) = (0, inspections (db st))"
    using insertLoop_none [OF filteredBatch_unbindable [OF assms]] .
  show ?thesis
    using il
    by (auto simp: processBatch_def Let_def insertInspectionsBatch_def split: sum.splits prod.splits)
qed

lemma concat_batchesFrom:
  "0 < b \<Longrightarrow> concat (batchesFrom xs b i) = drop i xs"
proof (induction xs b i rule: batchesFrom.induct)
  case (1 array bsize i)
  show ?case
  proof (cases "i < length array")
    case True
    have "slice array i (i + bsize) @ drop (i + bsize) array = drop i array"
      by (simp add: slice_def add.commute [of i bsize] flip: drop_drop)
    then show ?thesis
      using True 1 by (subst batchesFrom.simps) simp
  next
    case False
    then show ?thesis by (subst batchesFrom.simps) simp
  qed
qed

lemma createBatches_concat:
  "0 < b \<Longrightarrow> \<exists>batches. createBatches xs b = Some batches \<and> concat batches = xs"
  by (simp add: createBatches_def concat_batchesFrom)

lemma forBatches_fields [simp]:
  "shouldStop (forBatches env opts logId batches st) = shouldStop st"
  "decodeCalls (forBatches env opts logId batches st) = decodeCalls st"
  "isRunning (forBatches env opts logId batches st) = isRunning st"
  by (induction batches arbitrary: st; simp)+

lemma forBatches_ids_mono:
  "row_ids (inspections (db st)) \<subseteq> row_ids (inspections (db (forBatches env opts logId batches st)))"
proof (induction batches arbitrary: st)
  case Nil
  then show ?case by simp
next
  case (Cons b bs)
  show ?case
    using processBatch_ids_mono [of st env opts logId b]
          Cons.IH [of "processBatch env opts logId b st"]
    by auto
qed

lemma forBatches_distinct:
  "distinct (map id_col (inspections (db st))) \<Longrightarrow>
   distinct (map id_col (inspections (db (forBatches env opts logId batches st))))"
  by (induction batches arbitrary: st) (auto simp: processBatch_distinct)

lemma forBatches_covers:
  assumes "\<forall>b. \<not> txFails env b" and "\<not> shouldStop st"
    and "r \<in> set (concat batches)" and "insertable opts r"
  shows "stored_id r \<in> row_ids (inspections (db (forBatches env opts logId batches st)))"
  using assms(2,3)
proof (induction batches arbitrary: st)
  case Nil
  then show ?case by simp
next
  case (Cons b bs)
  let ?st = "processBatch env opts logId b st"
  show ?case
  proof (cases "r \<in> set b")
    case True
    then have "stored_id r \<in> row_ids (inspections (db ?st))"
      using processBatch_covers [OF assms(1) _ assms(4)] by blast
    then show ?thesis
      using Cons.prems forBatches_ids_mono [of ?st env opts logId bs] by auto
  next
    case False
    then have "r \<in> set (concat bs)" using Cons.prems by simp
    then show ?thesis using Cons.IH [of ?st] Cons.prems by simp
  qed
qed

lemma forBatches_noop:
  assumes "skipDuplicates opts"
    and "validateData opts \<or> (\<forall>r\<in>set (concat batches). insp_id r \<noteq> None)"
    and "\<forall>r\<in>set (concat batches). insertable opts r \<longrightarrow> stored_id r \<in> row_ids (inspections (db st))"
  shows "inspections (db (forBatches env opts logId batches st)) = inspections (db st) \<and>
         recordsImported (progress (forBatches env opts logId batches st)) =
           recordsImported (progress st)"
  using assms(2,3)
proof (induction batches arbitrary: st)
  case Nil
  then show ?case by simp
next
  case (Cons b bs)
  let ?st = "processBatch env opts logId b st"
  have pb: "inspections (db ?st) = inspections (db st) \<and>
            recordsImported (progress ?st) = recordsImported (progress st)"
    using processBatch_noop [OF assms(1), of b st env logId] Cons.prems by auto
  have "inspections (db (forBatches env opts logId bs ?st)) = inspections (db ?st) \<and>
        recordsImported (progress (forBatches env opts logId bs ?st)) = recordsImported (progress ?st)"
    using Cons.IH [of ?st] Cons.prems pb by auto
  then show ?case using pb by simp
qed

lemma set_streamLines:
  "set (streamLines ls limit offset sk col res) \<subseteq> set res \<union> {r. Json r \<in> set ls}"
  by (induction ls limit offset sk col res rule: streamLines.induct) auto

text \<open>The chunks a run decodes from an offset when nothing stops it: one decode call at
  each offset reached, until a chunk is empty or short.\<close>

function chunksFrom :: "line list \<Rightarrow> nat \<Rightarrow> SewerInspection list list" where
  "chunksFrom ls offset =
     (let chunk = streamLines ls importChunkSize offset 0 0 []
      in if chunk = [] then []
         else if length chunk < importChunkSize then [chunk]
         else chunk # chunksFrom ls (offset + length chunk))"
  by pat_completeness auto
termination
proof (relation "measure (\<lambda>(ls, offset). length ls - offset)", goal_cases)
  case 1
  then show ?case by simp
next
  case (2 ls offset chunk)
  have "length chunk \<le> length ls - offset"
    using length_streamLines [of ls importChunkSize offset 0 0 "[]"] 2 by simp
  moreover have "0 < length chunk" using 2 by (cases chunk) simp_all
  ultimately have "length ls - (offset + length chunk) < length ls - offset" by linarith
  then show ?case by simp
qed

declare chunksFrom.simps [simp del]

lemma importLoop_unfold:
  assumes "s3 env fname = Some ls" and "0 < batchSize opts"
  shows "importLoop env opts fname logId offset st =
     (if shouldStop st then Done st
      else
        let st1 = st\<lparr>decodeCalls := decodeCalls st @ [(fname, importChunkSize, offset)],
                     shouldStop := (stopDuring env = Some (length (decodeCalls st)))\<rparr>;
            chunk = streamLines ls importChunkSize offset 0 0 []
        in if chunk = [] then Done st1
           else
             let st2 = forBatches env opts logId (batchesFrom chunk (batchSize opts) 0) st1
             in if length chunk < importChunkSize then Done st2
                else importLoop env opts fname logId (offset + length chunk) st2)"
  using assms
  by (subst importLoop.simps) (simp add: streamFromS3_def createBatches_def Let_def)


text \<open>The state in which a loop ends, when it ends.\<close>

fun final :: "'a outcome \<Rightarrow> 'a option" where
  "final Diverges = None"
| "final (Thrown e s) = Some s"
| "final (Done s) = Some s"

lemma forBatches_preserves:
  assumes "\<And>s batch. Q s \<Longrightarrow> Q (processBatch env opts logId batch s)" and "Q st"
  shows "Q (forBatches env opts logId batches st)"
  using assms(2) by (induction batches arbitrary: st) (auto intro: assms(1))

lemma importLoop_preserves:
  assumes dec: "\<And>s c b. Q s \<Longrightarrow> Q (s\<lparr>decodeCalls := decodeCalls s @ [c], shouldStop := b\<rparr>)"
  shows "\<forall>s batch. Q s \<longrightarrow> Q (processBatch env opts logId batch s) \<Longrightarrow>
         Q st \<Longrightarrow> final (importLoop env opts fname logId offset st) = Some st' \<Longrightarrow> Q st'"
proof (induction env opts fname logId offset st rule: importLoop.induct)
  case (1 env opts fname logId offset st)
  let ?st1 = "st\<lparr>decodeCalls := decodeCalls st @ [(fname, importChunkSize, offset)],
                 shouldStop := (stopDuring env = Some (length (decodeCalls st)))\<rparr>"
  note pb = "1.prems"(1)
  note qst = "1.prems"(2)
  note fin = "1.prems"(3)
  have q1: "Q ?st1" using dec [OF qst] .
  show ?case
  proof (cases "shouldStop st")
    case stopped: True
    show ?thesis using fin qst stopped by (subst (asm) importLoop.simps) simp
  next
    case ns: False
    show ?thesis
    proof (cases "streamFromS3 (s3 env) fname importChunkSize offset")
      case (Inl e)
      show ?thesis using fin ns q1 Inl by (subst (asm) importLoop.simps) (simp add: Let_def)
    next
      case (Inr chunk)
      show ?thesis
      proof (cases "chunk = []")
        case emp: True
        show ?thesis using fin ns q1 Inr emp
          by (subst (asm) importLoop.simps) (simp add: Let_def)
      next
        case ne: False
        show ?thesis
        proof (cases "createBatches chunk (batchSize opts)")
          case None
          show ?thesis using fin ns Inr ne None
            by (subst (asm) importLoop.simps) (simp add: Let_def)
        next
          case (Some batches)
          let ?st2 = "forBatches env opts logId batches ?st1"
          have q2: "Q ?st2"
          proof (rule forBatches_preserves [where Q = Q])
            show "\<And>s batch. Q s \<Longrightarrow> Q (processBatch env opts logId batch s)"
              using pb by blast
            show "Q ?st1" by (rule q1)
          qed
          show ?thesis
          proof (cases "length chunk < importChunkSize")
            case short: True
            show ?thesis using fin ns Inr ne Some q2 short
              by (subst (asm) importLoop.simps) (simp add: Let_def)
          next
            case full: False
            have "final (importLoop env opts fname logId (offset + length chunk) ?st2) = Some st'"
              using fin ns Inr ne Some full
              by (subst (asm) importLoop.simps) (simp add: Let_def)
            then show ?thesis
              using "1.IH" [OF ns refl Inr ne Some refl full pb q2] by simp
          qed
        qed
      qed
    qed
  qed
qed

lemma importLoop_covers:
  assumes "0 < batchSize opts"
    and "stopDuring env = None" and "\<forall>b. \<not> txFails env b"
  shows "s3 env fname = Some ls \<Longrightarrow> \<not> shouldStop st \<Longrightarrow>
         \<exists>st'. importLoop env opts fname logId offset st = Done st' \<and> \<not> shouldStop st' \<and>
           row_ids (inspections (db st)) \<subseteq> row_ids (inspections (db st')) \<and>
           (\<forall>r\<in>set (concat (chunksFrom ls offset)).
              insertable opts r \<longrightarrow> stored_id r \<in> row_ids (inspections (db st')))"
proof (induction ls offset arbitrary: st rule: chunksFrom.induct)
  case (1 ls offset)
  note unf = importLoop_unfold [OF "1.prems"(1) assms(1), of logId offset st]
  let ?st1 = "st\<lparr>decodeCalls := decodeCalls st @ [(fname, importChunkSize, offset)],
                 shouldStop := (stopDuring env = Some (length (decodeCalls st)))\<rparr>"
  let ?chunk = "streamLines ls importChunkSize offset 0 0 []"
  let ?st2 = "forBatches env opts logId (batchesFrom ?chunk (batchSize opts) 0) ?st1"
  have ns1: "\<not> shouldStop ?st1" using assms(2) by simp
  have cc: "concat (batchesFrom ?chunk (batchSize opts) 0) = ?chunk"
    using concat_batchesFrom [OF assms(1), of ?chunk 0] by simp
  have mono2: "row_ids (inspections (db st)) \<subseteq> row_ids (inspections (db ?st2))"
    using forBatches_ids_mono [of ?st1 env opts logId] by simp
  have cov2: "\<forall>r\<in>set ?chunk. insertable opts r \<longrightarrow> stored_id r \<in> row_ids (inspections (db ?st2))"
    using forBatches_covers [OF assms(3) ns1, of _ "batchesFrom ?chunk (batchSize opts) 0" opts logId]
    unfolding cc by blast
  show ?case
  proof (cases "?chunk = []")
    case emp: True
    have "importLoop env opts fname logId offset st = Done ?st1"
      by (subst unf) (simp add: "1.prems"(2) emp Let_def)
    moreover have "chunksFrom ls offset = []"
      using emp by (subst chunksFrom.simps) (simp add: Let_def)
    ultimately show ?thesis using ns1 by simp
  next
    case ne: False
    show ?thesis
    proof (cases "length ?chunk < importChunkSize")
      case short: True
      have "importLoop env opts fname logId offset st = Done ?st2"
        by (subst unf) (simp add: "1.prems"(2) ne short Let_def)
      moreover have "chunksFrom ls offset = [?chunk]"
        using ne short by (subst chunksFrom.simps) (simp add: Let_def)
      ultimately show ?thesis using mono2 cov2 ns1 by simp
    next
      case full: False
      have ns2: "\<not> shouldStop ?st2" using ns1 by simp
      obtain st' where st': "importLoop env opts fname logId (offset + length ?chunk) ?st2 = Done st'"
          "\<not> shouldStop st'"
          "row_ids (inspections (db ?st2)) \<subseteq> row_ids (inspections (db st'))"
          "\<forall>r\<in>set (concat (chunksFrom ls (offset + length ?chunk))).
              insertable opts r \<longrightarrow> stored_id r \<in> row_ids (inspections (db st'))"
        using "1.IH" [OF refl ne full "1.prems"(1) ns2] by blast
      have eq: "importLoop env opts fname logId offset st = Done st'"
        by (subst unf) (simp add: "1.prems"(2) ne full st'(1) Let_def)
      have cf: "chunksFrom ls offset = ?chunk # chunksFrom ls (offset + length ?chunk)"
        using ne full by (subst chunksFrom.simps) (simp add: Let_def)
      show ?thesis
        unfolding eq cf using st'(2,3,4) mono2 cov2 by auto
    qed
  qed
qed

lemma importLoop_noop:
  assumes "0 < batchSize opts" and "skipDuplicates opts"
  shows "s3 env fname = Some ls \<Longrightarrow>
         validateData opts \<or> (\<forall>r. Json r \<in> set ls \<longrightarrow> insp_id r \<noteq> None) \<Longrightarrow>
         \<forall>r\<in>set (concat (chunksFrom ls offset)).
            insertable opts r \<longrightarrow> stored_id r \<in> row_ids (inspections (db st)) \<Longrightarrow>
         \<exists>st'. importLoop env opts fname logId offset st = Done st' \<and>
           inspections (db st') = inspections (db st) \<and>
           recordsImported (progress st') = recordsImported (progress st)"
proof (induction ls offset arbitrary: st rule: chunksFrom.induct)
  case (1 ls offset)
  note unf = importLoop_unfold [OF "1.prems"(1) assms(1), of logId offset st]
  note cov = "1.prems"(3)
  let ?st1 = "st\<lparr>decodeCalls := decodeCalls st @ [(fname, importChunkSize, offset)],
                 shouldStop := (stopDuring env = Some (length (decodeCalls st)))\<rparr>"
  let ?chunk = "streamLines ls importChunkSize offset 0 0 []"
  let ?st2 = "forBatches env opts logId (batchesFrom ?chunk (batchSize opts) 0) ?st1"
  have cc: "concat (batchesFrom ?chunk (batchSize opts) 0) = ?chunk"
    using concat_batchesFrom [OF assms(1), of ?chunk 0] by simp
  have sub: "set ?chunk \<subseteq> {r. Json r \<in> set ls}"
    using set_streamLines [of ls importChunkSize offset 0 0 "[]"] by simp
  have "\<forall>r\<in>set ?chunk. Json r \<in> set ls" using sub by auto
  then have idc: "validateData opts \<or> (\<forall>r\<in>set ?chunk. insp_id r \<noteq> None)"
    using "1.prems"(2) by auto
  show ?case
  proof (cases "shouldStop st")
    case stopped: True
    show ?thesis by (subst unf) (simp add: stopped)
  next
    case ns: False
    show ?thesis
    proof (cases "?chunk = []")
      case emp: True
      show ?thesis by (subst unf) (simp add: ns emp Let_def)
    next
      case ne: False
      have inchunk: "\<forall>r\<in>set ?chunk. insertable opts r \<longrightarrow> stored_id r \<in> row_ids (inspections (db ?st1))"
        using cov ne by (subst (asm) chunksFrom.simps) (auto simp: Let_def split: if_splits)
      have same2: "inspections (db ?st2) = inspections (db ?st1) \<and>
                   recordsImported (progress ?st2) = recordsImported (progress ?st1)"
        using forBatches_noop [OF assms(2), of "batchesFrom ?chunk (batchSize opts) 0" ?st1 env logId]
              idc inchunk unfolding cc by blast
      show ?thesis
      proof (cases "length ?chunk < importChunkSize")
        case short: True
        show ?thesis by (subst unf) (simp add: ns ne short same2 Let_def)
      next
        case full: False
        have later: "\<forall>r\<in>set (concat (chunksFrom ls (offset + length ?chunk))).
                       insertable opts r \<longrightarrow> stored_id r \<in> row_ids (inspections (db ?st2))"
          using cov ne full same2
          by (subst (asm) chunksFrom.simps) (auto simp: Let_def)
        obtain st' where st': "importLoop env opts fname logId (offset + length ?chunk) ?st2 = Done st'"
            "inspections (db st') = inspections (db ?st2)"
            "recordsImported (progress st') = recordsImported (progress ?st2)"
          using "1.IH" [OF refl ne full "1.prems"(1,2) later] by blast
        have "importLoop env opts fname logId offset st = Done st'"
          by (subst unf) (simp add: ns ne full st'(1) Let_def)
        then show ?thesis using st'(2,3) same2 by simp
      qed
    qed
  qed
qed


lemma processBatch_progress:
  "progress (processBatch env opts logId batch st) =
     (if txFails env (filteredBatch opts (inspections (db st)) batch)
      then (progress st)\<lparr>errors := errors (progress st) + length batch\<rparr>
      else (progress st)
             \<lparr>recordsProcessed := recordsProcessed (progress st) + length batch,
              recordsImported := recordsImported (progress st) +
                 length (filter bindable (filteredBatch opts (inspections (db st)) batch)),
              errors := errors (progress st) +
                 (length batch -
                  length (filter bindable (filteredBatch opts (inspections (db st)) batch)))\<rparr>)"
proof -
  let ?F = "filteredBatch opts (inspections (db st)) batch"
  have "fst (insertLoop ?F 0 (inspections (db st))) = length (filter bindable ?F)"
    by (simp add: insertLoop_count)
  then show ?thesis
    by (auto simp: processBatch_def Let_def insertInspectionsBatch_def split: sum.splits prod.splits)
qed

lemma inserted_le_batch:
  "length (filter bindable (filteredBatch opts rows batch)) \<le> length batch"
proof -
  have "length (filter bindable (filteredBatch opts rows batch)) \<le> length (filteredBatch opts rows batch)"
    by simp
  also have "\<dots> \<le> length (validBatch opts batch)" by (rule filteredBatch_length)
  also have "\<dots> \<le> length batch" by (rule validBatch_length)
  finally show ?thesis .
qed






section \<open>Facts about whole runs\<close>

lemma fold_max_ge: "(a::nat) \<le> fold max xs a"
proof (induction xs arbitrary: a)
  case Nil
  then show ?case by simp
next
  case (Cons x xs)
  have "a \<le> max x a" by simp
  also have "\<dots> \<le> fold max xs (max x a)" by (rule Cons.IH)
  finally show ?case by simp
qed

lemma fold_max_mem: "x \<in> set xs \<Longrightarrow> (x::nat) \<le> fold max xs a"
proof (induction xs arbitrary: a)
  case Nil
  then show ?case by simp
next
  case (Cons y ys)
  show ?case
  proof (cases "x = y")
    case True
    have "x \<le> max y a" using True by simp
    also have "\<dots> \<le> fold max ys (max y a)" by (rule fold_max_ge)
    finally show ?thesis by simp
  next
    case False
    then show ?thesis using Cons by simp
  qed
qed

lemma startImportLog_props:
  assumes "startImportLog fname now d = (logId, d1)"
  shows "(\<forall>r\<in>set (import_log d). log_id r \<noteq> logId) \<and> inspections d1 = inspections d \<and>
         (\<exists>x. import_log d1 = import_log d @ [x] \<and> log_id x = logId)"
proof -
  have id: "logId = Suc (fold max (map log_id (import_log d)) 0)"
    using assms by (simp add: startImportLog_def Let_def)
  have "\<forall>r\<in>set (import_log d). log_id r < logId"
  proof
    fix r assume "r \<in> set (import_log d)"
    then have "log_id r \<le> fold max (map log_id (import_log d)) 0"
      by (intro fold_max_mem) simp
    then show "log_id r < logId" using id by simp
  qed
  then have "\<forall>r\<in>set (import_log d). log_id r \<noteq> logId" by auto
  then show ?thesis using assms by (auto simp: startImportLog_def Let_def)
qed

lemma resolveStart_props:
  assumes "resolveStart env fname resume d = (logId, offset, st0)"
  shows "decodeCalls st0 = [] \<and> \<not> shouldStop st0 \<and> inspections (db st0) = inspections d \<and>
         offset = (if resume \<or> canResumeImport d fname then calculateResumeOffset d fname else 0)"
  using assms
  by (auto simp: resolveStart_def Let_def startImportLog_def split: option.splits prod.splits if_splits)

lemma resolveStart_fresh:
  assumes "calculateResumeOffset d fname = 0"
    and "resolveStart env fname resume d = (logId, offset, st0)"
  shows "offset = 0 \<and> recordsImported (progress st0) = 0 \<and> errors (progress st0) = 0 \<and>
         recordsProcessed (progress st0) = 0 \<and>
         startImportLog fname (startClock env) d = (logId, db st0)"
proof -
  obtain i d1 where sl: "startImportLog fname (startClock env) d = (i, d1)"
    by (cases "startImportLog fname (startClock env) d") auto
  have "resolveStart env fname resume d =
          (i, 0, \<lparr> progress = \<lparr> fileName = fname, recordsProcessed = 0, recordsImported = 0,
                                  errors = 0, status = Running, errorMessage = None \<rparr>,
                    db = d1, isRunning = True, shouldStop = False, decodeCalls = [] \<rparr>)"
    by (simp add: resolveStart_def Let_def canResumeImport_def assms(1) sl)
  then show ?thesis using assms(2) sl by auto
qed

lemma processBatch_log:
  "\<exists>g. import_log (db (processBatch env opts logId batch st)) =
         map (\<lambda>r. if log_id r = logId then g r else r) (import_log (db st)) \<and>
       (\<forall>r. log_id (g r) = log_id r)"
proof (cases "txFails env (filteredBatch opts (inspections (db st)) batch)")
  case True
  then have "import_log (db (processBatch env opts logId batch st)) =
               map (\<lambda>r. if log_id r = logId then r else r) (import_log (db st))"
    by (simp add: processBatch_def insertInspectionsBatch_def)
  then show ?thesis by (intro exI [of _ "\<lambda>r. r"]) simp
next
  case False
  obtain n rows' where il: "insertLoop (filteredBatch opts (inspections (db st)) batch) 0
                              (inspections (db st)) = (n, rows')"
    by (cases "insertLoop (filteredBatch opts (inspections (db st)) batch) 0 (inspections (db st))")
  let ?p = "(progress st)
              \<lparr>recordsProcessed := recordsProcessed (progress st) + length batch,
               recordsImported := recordsImported (progress st) + n,
               errors := errors (progress st) + (length batch - n)\<rparr>"
  let ?g = "\<lambda>r. r\<lparr>records_processed := recordsProcessed ?p,
                    records_imported := recordsImported ?p,
                    errors_col := errors ?p, status_col := status ?p\<rparr>"
  have "import_log (db (processBatch env opts logId batch st)) =
          map (\<lambda>r. if log_id r = logId then ?g r else r) (import_log (db st))"
    using False il
    by (simp add: processBatch_def insertInspectionsBatch_def Let_def updateImportLog_def)
  moreover have "\<forall>r. log_id (?g r) = log_id r" by simp
  ultimately show ?thesis by (intro exI [of _ ?g]) simp
qed

text \<open>The checkpoint table is a given table followed by the row of the current run.\<close>

definition log_tail :: "ImportLogRow list \<Rightarrow> nat \<Rightarrow> ImportState \<Rightarrow> bool" where
  "log_tail l0 logId s = (\<exists>x. import_log (db s) = l0 @ [x] \<and> log_id x = logId)"

lemma log_tail_processBatch:
  assumes "\<forall>r\<in>set l0. log_id r \<noteq> logId" and "log_tail l0 logId s"
  shows "log_tail l0 logId (processBatch env opts logId batch s)"
proof -
  obtain x where x: "import_log (db s) = l0 @ [x]" "log_id x = logId"
    using assms(2) by (auto simp: log_tail_def)
  obtain g where g: "import_log (db (processBatch env opts logId batch s)) =
         map (\<lambda>r. if log_id r = logId then g r else r) (import_log (db s))"
       "\<forall>r. log_id (g r) = log_id r"
    using processBatch_log by blast
  have "map (\<lambda>r. if log_id r = logId then g r else r) l0 = l0"
    using assms(1) by (induction l0) auto
  then have "import_log (db (processBatch env opts logId batch s)) = l0 @ [g x]"
    using g(1) x by simp
  then show ?thesis using g(2) x(2) by (auto simp: log_tail_def)
qed

lemma importLoop_log_tail:
  assumes "\<forall>r\<in>set l0. log_id r \<noteq> logId" and "log_tail l0 logId st"
    and "final (importLoop env opts fname logId offset st) = Some st'"
  shows "log_tail l0 logId st'"
proof (rule importLoop_preserves [where Q = "log_tail l0 logId", OF _ _ assms(2,3)])
  show "\<And>s c b. log_tail l0 logId s \<Longrightarrow>
          log_tail l0 logId (s\<lparr>decodeCalls := decodeCalls s @ [c], shouldStop := b\<rparr>)"
    by (simp add: log_tail_def)
  show "\<forall>s batch. log_tail l0 logId s \<longrightarrow> log_tail l0 logId (processBatch env opts logId batch s)"
    using log_tail_processBatch [OF assms(1)] by blast
qed

lemma calculateResumeOffset_completed_tail:
  assumes "import_log d' = import_log d @ [x]" and "status_col x = Completed"
  shows "calculateResumeOffset d' fname = calculateResumeOffset d fname"
  using assms by (simp add: calculateResumeOffset_def resumable_status_def)

lemma finalize_completed:
  assumes "\<forall>r\<in>set l0. log_id r \<noteq> logId" and "log_tail l0 logId st" and "\<not> shouldStop st"
  shows "\<exists>st1. finalizeImport env logId (Done st) = Some st1 \<and>
           progress st1 = (progress st)\<lparr>status := Completed\<rparr> \<and>
           inspections (db st1) = inspections (db st) \<and>
           decodeCalls st1 = decodeCalls st \<and>
           (\<exists>x. import_log (db st1) = l0 @ [x] \<and> status_col x = Completed)"
proof -
  obtain x where x: "import_log (db st) = l0 @ [x]" "log_id x = logId"
    using assms(2) by (auto simp: log_tail_def)
  have "map (\<lambda>r. if log_id r = logId then f r else r) l0 = l0" for f :: "ImportLogRow \<Rightarrow> ImportLogRow"
    using assms(1) by (induction l0) auto
  then show ?thesis
    using x assms(3) by (simp add: finalizeImport_def Let_def completeImportLog_def)
qed

lemma first_run:
  assumes "s3 env fname = Some ls" and "0 < batchSize opts" and "stopDuring env = None"
    and "\<forall>b. \<not> txFails env b" and "calculateResumeOffset d fname = 0"
  shows "\<exists>st1. importFromS3 env opts fname resume d = Some st1 \<and>
           calculateResumeOffset (db st1) fname = 0 \<and>
           status (progress st1) = Completed \<and>
           row_ids (inspections d) \<subseteq> row_ids (inspections (db st1)) \<and>
           (\<forall>r\<in>set (concat (chunksFrom ls 0)).
              insertable opts r \<longrightarrow> stored_id r \<in> row_ids (inspections (db st1)))"
proof -
  obtain logId offset st0 where rs: "resolveStart env fname resume d = (logId, offset, st0)"
    by (cases "resolveStart env fname resume d") auto
  have p: "decodeCalls st0 = []" "\<not> shouldStop st0" "inspections (db st0) = inspections d"
    using resolveStart_props [OF rs] by auto
  have f: "offset = 0" "startImportLog fname (startClock env) d = (logId, db st0)"
    using resolveStart_fresh [OF assms(5) rs] by auto
  have fresh: "\<forall>r\<in>set (import_log d). log_id r \<noteq> logId"
    and lt0: "log_tail (import_log d) logId st0"
    using startImportLog_props [OF f(2)] by (auto simp: log_tail_def)
  obtain st' where st': "importLoop env opts fname logId 0 st0 = Done st'" "\<not> shouldStop st'"
      "row_ids (inspections (db st0)) \<subseteq> row_ids (inspections (db st'))"
      "\<forall>r\<in>set (concat (chunksFrom ls 0)).
          insertable opts r \<longrightarrow> stored_id r \<in> row_ids (inspections (db st'))"
    using importLoop_covers [OF assms(2,3,4,1) p(2), of logId 0] by blast
  have lt: "log_tail (import_log d) logId st'"
    using importLoop_log_tail [OF fresh lt0, of env opts fname 0 st'] st'(1) by simp
  obtain st1 where st1: "finalizeImport env logId (Done st') = Some st1"
      "progress st1 = (progress st')\<lparr>status := Completed\<rparr>"
      "inspections (db st1) = inspections (db st')"
      "\<exists>x. import_log (db st1) = import_log d @ [x] \<and> status_col x = Completed"
    using finalize_completed [OF fresh lt st'(2), of env] by blast
  have run: "importFromS3 env opts fname resume d = Some st1"
    using rs f(1) st'(1) st1(1) by (simp add: importFromS3_def)
  have off: "calculateResumeOffset (db st1) fname = 0"
    using st1(4) calculateResumeOffset_completed_tail assms(5) by metis
  show ?thesis
    using run off st1(2,3) st'(3,4) p(3) by auto
qed









lemma processBatch_noop_errors:
  assumes "skipDuplicates opts"
    and "validateData opts \<or> (\<forall>r\<in>set batch. insp_id r \<noteq> None)"
    and "\<forall>r\<in>set batch. insertable opts r \<longrightarrow> stored_id r \<in> row_ids (inspections (db st))"
    and "\<forall>b. \<not> txFails env b"
  shows "errors (progress (processBatch env opts logId batch st)) = errors (progress st) + length batch \<and>
         recordsProcessed (progress (processBatch env opts logId batch st)) =
           recordsProcessed (progress st) + length batch"
proof -
  let ?F = "filteredBatch opts (inspections (db st)) batch"
  have "\<forall>r\<in>set ?F. \<not> bindable r"
    using filteredBatch_unbindable [OF assms(1,2,3)] .
  then have "filter bindable ?F = []" by (simp add: filter_empty_conv)
  then show ?thesis using assms(4) by (simp add: processBatch_progress)
qed

lemma forBatches_noop_errors:
  assumes "skipDuplicates opts" and "\<forall>b. \<not> txFails env b"
  shows "validateData opts \<or> (\<forall>r\<in>set (concat batches). insp_id r \<noteq> None) \<Longrightarrow>
         \<forall>r\<in>set (concat batches). insertable opts r \<longrightarrow> stored_id r \<in> row_ids (inspections (db st)) \<Longrightarrow>
         errors (progress (forBatches env opts logId batches st)) + recordsProcessed (progress st) =
           errors (progress st) + recordsProcessed (progress (forBatches env opts logId batches st))"
proof (induction batches arbitrary: st)
  case Nil
  then show ?case by simp
next
  case (Cons b bs)
  let ?st = "processBatch env opts logId b st"
  show ?case
  proof (cases "shouldStop st")
    case True
    then show ?thesis by simp
  next
    case False
    have pb: "errors (progress ?st) = errors (progress st) + length b"
        "recordsProcessed (progress ?st) = recordsProcessed (progress st) + length b"
      using processBatch_noop_errors [OF assms(1) _ _ assms(2), of b st logId] Cons.prems by auto
    have same: "inspections (db ?st) = inspections (db st)"
      using processBatch_noop [OF assms(1), of b st env logId] Cons.prems by auto
    have "errors (progress (forBatches env opts logId bs ?st)) + recordsProcessed (progress ?st) =
           errors (progress ?st) + recordsProcessed (progress (forBatches env opts logId bs ?st))"
      using Cons.IH [of ?st] Cons.prems same by auto
    then show ?thesis using False pb by simp
  qed
qed

lemma importLoop_noop_errors:
  assumes "0 < batchSize opts" and "skipDuplicates opts" and "\<forall>b. \<not> txFails env b"
  shows "s3 env fname = Some ls \<Longrightarrow>
         validateData opts \<or> (\<forall>r. Json r \<in> set ls \<longrightarrow> insp_id r \<noteq> None) \<Longrightarrow>
         \<forall>r\<in>set (concat (chunksFrom ls offset)).
            insertable opts r \<longrightarrow> stored_id r \<in> row_ids (inspections (db st)) \<Longrightarrow>
         \<exists>st'. importLoop env opts fname logId offset st = Done st' \<and>
           errors (progress st') + recordsProcessed (progress st) =
             errors (progress st) + recordsProcessed (progress st')"
proof (induction ls offset arbitrary: st rule: chunksFrom.induct)
  case (1 ls offset)
  note unf = importLoop_unfold [OF "1.prems"(1) assms(1), of logId offset st]
  note cov = "1.prems"(3)
  let ?st1 = "st\<lparr>decodeCalls := decodeCalls st @ [(fname, importChunkSize, offset)],
                 shouldStop := (stopDuring env = Some (length (decodeCalls st)))\<rparr>"
  let ?chunk = "streamLines ls importChunkSize offset 0 0 []"
  let ?st2 = "forBatches env opts logId (batchesFrom ?chunk (batchSize opts) 0) ?st1"
  have cc: "concat (batchesFrom ?chunk (batchSize opts) 0) = ?chunk"
    using concat_batchesFrom [OF assms(1), of ?chunk 0] by simp
  have sub: "set ?chunk \<subseteq> {r. Json r \<in> set ls}"
    using set_streamLines [of ls importChunkSize offset 0 0 "[]"] by simp
  have "\<forall>r\<in>set ?chunk. Json r \<in> set ls" using sub by auto
  then have idc: "validateData opts \<or> (\<forall>r\<in>set ?chunk. insp_id r \<noteq> None)"
    using "1.prems"(2) by auto
  show ?case
  proof (cases "shouldStop st")
    case stopped: True
    show ?thesis by (subst unf) (simp add: stopped)
  next
    case ns: False
    show ?thesis
    proof (cases "?chunk = []")
      case emp: True
      show ?thesis by (subst unf) (simp add: ns emp Let_def)
    next
      case ne: False
      have inchunk: "\<forall>r\<in>set ?chunk. insertable opts r \<longrightarrow> stored_id r \<in> row_ids (inspections (db ?st1))"
        using cov ne by (subst (asm) chunksFrom.simps) (auto simp: Let_def split: if_splits)
      have same2: "inspections (db ?st2) = inspections (db ?st1)"
        using forBatches_noop [OF assms(2), of "batchesFrom ?chunk (batchSize opts) 0" ?st1 env logId]
              idc inchunk unfolding cc by blast
      have err2: "errors (progress ?st2) + recordsProcessed (progress st) =
                    errors (progress st) + recordsProcessed (progress ?st2)"
        using forBatches_noop_errors [OF assms(2,3), of "batchesFrom ?chunk (batchSize opts) 0" ?st1 logId]
              idc inchunk unfolding cc by simp
      show ?thesis
      proof (cases "length ?chunk < importChunkSize")
        case short: True
        show ?thesis by (subst unf) (simp add: ns ne short err2 Let_def)
      next
        case full: False
        have later: "\<forall>r\<in>set (concat (chunksFrom ls (offset + length ?chunk))).
                       insertable opts r \<longrightarrow> stored_id r \<in> row_ids (inspections (db ?st2))"
          using cov ne full same2
          by (subst (asm) chunksFrom.simps) (auto simp: Let_def)
        obtain st' where st': "importLoop env opts fname logId (offset + length ?chunk) ?st2 = Done st'"
            "errors (progress st') + recordsProcessed (progress ?st2) =
               errors (progress ?st2) + recordsProcessed (progress st')"
          using "1.IH" [OF refl ne full "1.prems"(1,2) later] by blast
        have "importLoop env opts fname logId offset st = Done st'"
          by (subst unf) (simp add: ns ne full st'(1) Let_def)
        then show ?thesis using st'(2) err2 by simp
      qed
    qed
  qed
qed

lemma reimport_counts_duplicates_as_errors:
  assumes "s3 env fname = Some ls" and "0 < batchSize opts" and "skipDuplicates opts"
    and "\<forall>b. \<not> txFails env b"
    and "validateData opts \<or> (\<forall>r. Json r \<in> set ls \<longrightarrow> insp_id r \<noteq> None)"
    and "calculateResumeOffset d fname = 0"
    and "\<forall>r\<in>set (concat (chunksFrom ls 0)).
            insertable opts r \<longrightarrow> stored_id r \<in> row_ids (inspections d)"
  shows "\<exists>st2. importFromS3 env opts fname resume d = Some st2 \<and>
           recordsImported (progress st2) = 0 \<and>
           errors (progress st2) = recordsProcessed (progress st2)"
proof -
  obtain logId offset st0 where rs: "resolveStart env fname resume d = (logId, offset, st0)"
    by (cases "resolveStart env fname resume d") auto
  have p: "inspections (db st0) = inspections d"
    using resolveStart_props [OF rs] by auto
  have f: "offset = 0" "recordsImported (progress st0) = 0" "errors (progress st0) = 0"
      "recordsProcessed (progress st0) = 0"
    using resolveStart_fresh [OF assms(6) rs] by auto
  have cov: "\<forall>r\<in>set (concat (chunksFrom ls 0)).
            insertable opts r \<longrightarrow> stored_id r \<in> row_ids (inspections (db st0))"
    using assms(7) p by simp
  obtain st' where st': "importLoop env opts fname logId 0 st0 = Done st'"
      "recordsImported (progress st') = recordsImported (progress st0)"
    using importLoop_noop [OF assms(2,3,1,5) cov, of logId] by blast
  obtain st'' where st'': "importLoop env opts fname logId 0 st0 = Done st''"
      "errors (progress st'') + recordsProcessed (progress st0) =
         errors (progress st0) + recordsProcessed (progress st'')"
    using importLoop_noop_errors [OF assms(2,3,4,1,5) cov, of logId] by blast
  have "st'' = st'" using st'(1) st''(1) by simp
  then show ?thesis
    using rs f st' st''(2) by (simp add: importFromS3_def finalizeImport_def Let_def)
qed


section \<open>Example data\<close>

text \<open>A record with every field the importer reads, and the pieces of a run on a
  one-file store with no stop request and no storage failure.\<close>

definition sampleRecord :: "string \<Rightarrow> SewerInspection" where
  "sampleRecord i =
     \<lparr> insp_id = Some i, timestamp_utc = Some 1000,
       location = Some \<lparr> city = Some ''Houston'', state = Some ''TX'' \<rparr>,
       pipe = Some \<lparr> material = Some ''PVC'', diameter_in = Some 8 \<rparr>,
       inspection_score = Some 80, requires_repair = Some False \<rparr>"


definition sampleEnv :: "line list \<Rightarrow> Env" where
  "sampleEnv ls =
     \<lparr> s3 = (\<lambda>f. if f = ''part1.jsonl'' then Some ls else None),
       stopDuring = None, txFails = (\<lambda>b. False), startClock = 1, endClock = 2 \<rparr>"

definition twoRecords :: "line list" where
  "twoRecords = [Json (sampleRecord ''a''), Json (sampleRecord ''b'')]"

definition emptyDb :: Database where
  "emptyDb = \<lparr> inspections = [], import_log = [] \<rparr>"

definition sampleState :: "Row list \<Rightarrow> ImportState" where
  "sampleState rows =
     \<lparr> progress = \<lparr> fileName = ''part1.jsonl'', recordsProcessed = 0, recordsImported = 0,
                     errors = 0, status = Running, errorMessage = None \<rparr>,
       db = \<lparr> inspections = rows, import_log = [] \<rparr>,
       isRunning = True, shouldStop = False, decodeCalls = [] \<rparr>"

definition sampleRow :: "string \<Rightarrow> Row" where
  "sampleRow i =
     \<lparr> id_col = i, timestamp_utc_col = 1000, city_col = ''Houston'', state_col = ''TX'',
       material_col = ''PVC'', diameter_in_col = 8, inspection_score_col = 80,
       requires_repair_col = False \<rparr>"

section \<open>Claims about validation and the error counter\<close>





text \<open>
  Claim C10: after a batch that the storage layer commits, the error counter grows by
  the batch length minus the inserted count, and the imported counter by the inserted
  count; the difference is made of the records dropped by validation, those dropped by
  deduplication and those whose insert raised.  In particular, with deduplication
  enabled a batch whose insertable records are all in the store already inserts nothing
  and adds its whole length to the error counter; and when a source is imported to
  completion and then imported again unchanged, the second run imports nothing and
  counts every record it processes as an error.
\<close>

theorem batch_errors_counter:
  assumes "\<not> txFails env (filteredBatch opts (inspections (db st)) batch)"
  shows "(let rows = inspections (db st);
              toInsert = filteredBatch opts rows batch;
              insertedCount = fst (insertLoop toInsert 0 rows);
              st' = processBatch env opts logId batch st
          in errors (progress st') = errors (progress st) + (length batch - insertedCount) \<and>
             recordsImported (progress st') = recordsImported (progress st) + insertedCount \<and>
             recordsProcessed (progress st') = recordsProcessed (progress st) + length batch \<and>
             insertedCount \<le> length batch \<and>
             length batch - insertedCount =
               (length batch - length (validBatch opts batch)) +
               (length (validBatch opts batch) - length toInsert) +
               (length toInsert - insertedCount) \<and>
             (skipDuplicates opts \<and>
              (validateData opts \<or> list_all (\<lambda>r. insp_id r \<noteq> None) batch) \<and>
              list_all (\<lambda>r. insertable opts r \<longrightarrow> stored_id r \<in> row_ids rows) batch \<longrightarrow>
              insertedCount = 0 \<and>
              errors (progress st') = errors (progress st) + length batch \<and>
              inspections (db st') = rows)) \<and>
         (s3 env fname = Some ls \<and> 0 < batchSize opts \<and> skipDuplicates opts \<and>
          stopDuring env = None \<and> (\<forall>b. \<not> txFails env b) \<and>
          (validateData opts \<or> (\<forall>r. Json r \<in> set ls \<longrightarrow> insp_id r \<noteq> None)) \<and>
          calculateResumeOffset d fname = 0 \<longrightarrow>
          (\<exists>st1 st2. importFromS3 env opts fname False d = Some st1 \<and>
                    importFromS3 env opts fname False (db st1) = Some st2 \<and>
                    recordsImported (progress st2) = 0 \<and>
                    errors (progress st2) = recordsProcessed (progress st2)))"
proof -
  let ?rows = "inspections (db st)"
  let ?F = "filteredBatch opts ?rows batch"
  let ?n = "fst (insertLoop ?F 0 ?rows)"
  let ?st' = "processBatch env opts logId batch st"
  have n: "?n = length (filter bindable ?F)" by (simp add: insertLoop_count)
  have le1: "?n \<le> length ?F" unfolding n by simp
  have le2: "length ?F \<le> length (validBatch opts batch)" by (rule filteredBatch_length)
  have le3: "length (validBatch opts batch) \<le> length batch" by (rule validBatch_length)
  have counts: "errors (progress ?st') = errors (progress st) + (length batch - ?n)"
      "recordsImported (progress ?st') = recordsImported (progress st) + ?n"
      "recordsProcessed (progress ?st') = recordsProcessed (progress st) + length batch"
    using assms unfolding n by (simp_all add: processBatch_progress)
  have dup: "?n = 0 \<and> errors (progress ?st') = errors (progress st) + length batch \<and>
             inspections (db ?st') = ?rows"
    if "skipDuplicates opts"
      and "validateData opts \<or> list_all (\<lambda>r. insp_id r \<noteq> None) batch"
      and "list_all (\<lambda>r. insertable opts r \<longrightarrow> stored_id r \<in> row_ids ?rows) batch"
  proof -
    have "\<forall>r\<in>set ?F. \<not> bindable r"
      using filteredBatch_unbindable [OF that(1), of batch ?rows] that(2,3)
      by (auto simp: list_all_iff)
    then have "filter bindable ?F = []" by (simp add: filter_empty_conv)
    then have "?n = 0" unfolding n by simp
    then show ?thesis
      using counts(1) processBatch_noop [OF that(1), of batch st env logId] that(2,3)
      by (auto simp: list_all_iff)
  qed
  have batch_part: "(let rows = inspections (db st);
              toInsert = filteredBatch opts rows batch;
              insertedCount = fst (insertLoop toInsert 0 rows);
              st' = processBatch env opts logId batch st
          in errors (progress st') = errors (progress st) + (length batch - insertedCount) \<and>
             recordsImported (progress st') = recordsImported (progress st) + insertedCount \<and>
             recordsProcessed (progress st') = recordsProcessed (progress st) + length batch \<and>
             insertedCount \<le> length batch \<and>
             length batch - insertedCount =
               (length batch - length (validBatch opts batch)) +
               (length (validBatch opts batch) - length toInsert) +
               (length toInsert - insertedCount) \<and>
             (skipDuplicates opts \<and>
              (validateData opts \<or> list_all (\<lambda>r. insp_id r \<noteq> None) batch) \<and>
              list_all (\<lambda>r. insertable opts r \<longrightarrow> stored_id r \<in> row_ids rows) batch \<longrightarrow>
              insertedCount = 0 \<and>
              errors (progress st') = errors (progress st) + length batch \<and>
              inspections (db st') = rows))"
    unfolding Let_def using counts le1 le2 le3 dup by auto
  have run_part: "\<exists>st1 st2. importFromS3 env opts fname False d = Some st1 \<and>
                    importFromS3 env opts fname False (db st1) = Some st2 \<and>
                    recordsImported (progress st2) = 0 \<and>
                    errors (progress st2) = recordsProcessed (progress st2)"
    if h: "s3 env fname = Some ls" "0 < batchSize opts" "skipDuplicates opts"
      "stopDuring env = None" "\<forall>b. \<not> txFails env b"
      "validateData opts \<or> (\<forall>r. Json r \<in> set ls \<longrightarrow> insp_id r \<noteq> None)"
      "calculateResumeOffset d fname = 0"
  proof -
    obtain st1 where st1: "importFromS3 env opts fname False d = Some st1"
        "calculateResumeOffset (db st1) fname = 0"
        "\<forall>r\<in>set (concat (chunksFrom ls 0)).
            insertable opts r \<longrightarrow> stored_id r \<in> row_ids (inspections (db st1))"
      using first_run [OF h(1,2,4,5,7), of False] by blast
    obtain st2 where "importFromS3 env opts fname False (db st1) = Some st2"
        "recordsImported (progress st2) = 0"
        "errors (progress st2) = recordsProcessed (progress st2)"
      using reimport_counts_duplicates_as_errors [OF h(1,2,3,5,6) st1(2,3), of False] by blast
    then show ?thesis using st1(1) by blast
  qed
  show ?thesis using batch_part run_part by blast
qed

theorem batch_errors_counter_witness:
  "\<not> txFails (sampleEnv twoRecords)
       (filteredBatch DEFAULT_OPTIONS [sampleRow ''a''] [sampleRecord ''a'']) \<and>
   errors (progress (processBatch (sampleEnv twoRecords) DEFAULT_OPTIONS 1 [sampleRecord ''a'']
                       (sampleState [sampleRow ''a'']))) = 1 \<and>
   recordsImported (progress (processBatch (sampleEnv twoRecords) DEFAULT_OPTIONS 1
                       [sampleRecord ''a''] (sampleState [sampleRow ''a'']))) = 0 \<and>
   (\<exists>st1 st2. importFromS3 (sampleEnv twoRecords) DEFAULT_OPTIONS ''part1.jsonl'' False emptyDb = Some st1 \<and>
       importFromS3 (sampleEnv twoRecords) DEFAULT_OPTIONS ''part1.jsonl'' False (db st1) = Some st2 \<and>
       recordsImported (progress st2) = 0 \<and>
       errors (progress st2) = recordsProcessed (progress st2))"
proof -
  have tx: "\<not> txFails (sampleEnv twoRecords)
               (filteredBatch DEFAULT_OPTIONS (inspections (db (sampleState [sampleRow ''a''])))
                  [sampleRecord ''a''])"
    by (simp add: sampleEnv_def)
  have rows: "inspections (db (sampleState [sampleRow ''a''])) = [sampleRow ''a'']"
    by (simp add: sampleState_def)
  have p0: "errors (progress (sampleState [sampleRow ''a''])) = 0"
      "recordsImported (progress (sampleState [sampleRow ''a''])) = 0"
    by (simp_all add: sampleState_def)
  have F: "filteredBatch DEFAULT_OPTIONS [sampleRow ''a''] [sampleRecord ''a''] = []"
    by (simp add: filteredBatch_def validBatch_def filterDuplicates_def DEFAULT_OPTIONS_def
          sampleRecord_def sampleRow_def validateRecord_def loc_city_def loc_state_def
          pipe_material_def pipe_diameter_in_def truthy_def Let_def)
  note t = batch_errors_counter [OF tx, of 1 "''part1.jsonl''" twoRecords emptyDb]
  have batch_part: "errors (progress (processBatch (sampleEnv twoRecords) DEFAULT_OPTIONS 1
                       [sampleRecord ''a''] (sampleState [sampleRow ''a'']))) = 1 \<and>
       recordsImported (progress (processBatch (sampleEnv twoRecords) DEFAULT_OPTIONS 1
                       [sampleRecord ''a''] (sampleState [sampleRow ''a'']))) = 0"
    using t [THEN conjunct1] unfolding rows Let_def F by (simp add: p0)
  have h: "s3 (sampleEnv twoRecords) ''part1.jsonl'' = Some twoRecords \<and>
           0 < batchSize DEFAULT_OPTIONS \<and> skipDuplicates DEFAULT_OPTIONS \<and>
           stopDuring (sampleEnv twoRecords) = None \<and>
           (\<forall>b. \<not> txFails (sampleEnv twoRecords) b) \<and>
           (validateData DEFAULT_OPTIONS \<or>
              (\<forall>r. Json r \<in> set twoRecords \<longrightarrow> insp_id r \<noteq> None)) \<and>
           calculateResumeOffset emptyDb ''part1.jsonl'' = 0"
    by (simp add: sampleEnv_def DEFAULT_OPTIONS_def calculateResumeOffset_def emptyDb_def
          sql_order_by_desc_def)
  have run_part: "\<exists>st1 st2. importFromS3 (sampleEnv twoRecords) DEFAULT_OPTIONS ''part1.jsonl'' False emptyDb = Some st1 \<and>
       importFromS3 (sampleEnv twoRecords) DEFAULT_OPTIONS ''part1.jsonl'' False (db st1) = Some st2 \<and>
       recordsImported (progress st2) = 0 \<and>
       errors (progress st2) = recordsProcessed (progress st2)"
    using t [THEN conjunct2] h by (rule mp)
  have tx': "\<not> txFails (sampleEnv twoRecords)
       (filteredBatch DEFAULT_OPTIONS [sampleRow ''a''] [sampleRecord ''a''])"
    by (simp add: sampleEnv_def)
  show ?thesis using tx' batch_part run_part by (intro conjI) simp_all
qed

section \<open>Claims about whole import runs\<close>

lemma insertable_skipDuplicates [simp]:
  "insertable (opts\<lparr>skipDuplicates := b\<rparr>) r = insertable opts r"
  by (simp add: insertable_def)




text \<open>The non-completed checkpoints of a source, and what it is for one of them to be
  the most recent (by start time).\<close>

definition nonCompletedCheckpoints :: "Database \<Rightarrow> string \<Rightarrow> ImportLogRow list" where
  "nonCompletedCheckpoints d fname =
     filter (\<lambda>r. source_file r = fname \<and> status_col r \<noteq> Completed) (import_log d)"

definition most_recent :: "ImportLogRow \<Rightarrow> ImportLogRow list \<Rightarrow> bool" where
  "most_recent c cs = (c \<in> set cs \<and> list_all (\<lambda>c'. started_at c' \<le> started_at c) cs)"

lemma resumable_status_iff: "resumable_status s \<longleftrightarrow> s \<noteq> Completed"
  by (cases s) (simp_all add: resumable_status_def)

lemma order_desc_head:
  assumes "sql_order_by_desc key xs = r # rest"
  shows "r \<in> set xs \<and> (\<forall>x\<in>set xs. key x \<le> key r)"
proof -
  let ?ys = "sort_key (\<lambda>r. - key r) xs"
  have ys: "?ys = r # rest" using assms by (simp add: sql_order_by_desc_def)
  have "sorted (map (\<lambda>r. - key r) ?ys)" by (rule sorted_sort_key)
  then have "\<forall>x\<in>set rest. - key r \<le> - key x" unfolding ys by simp
  moreover have "set xs = set (r # rest)" using ys set_sort [of "\<lambda>r. - key r" xs] by simp
  ultimately show ?thesis by auto
qed

lemma calculateResumeOffset_none:
  "nonCompletedCheckpoints d fname = [] \<Longrightarrow> calculateResumeOffset d fname = 0"
  by (simp add: calculateResumeOffset_def nonCompletedCheckpoints_def resumable_status_iff
        sql_order_by_desc_def)

lemma calculateResumeOffset_most_recent:
  assumes "nonCompletedCheckpoints d fname \<noteq> []"
  shows "\<exists>c. most_recent c (nonCompletedCheckpoints d fname) \<and>
             calculateResumeOffset d fname = records_processed c"
proof -
  let ?cs = "nonCompletedCheckpoints d fname"
  have len: "length (sql_order_by_desc started_at ?cs) = length ?cs"
    by (simp add: sql_order_by_desc_def)
  then obtain c rest where cr: "sql_order_by_desc started_at ?cs = c # rest"
    using assms by (cases "sql_order_by_desc started_at ?cs") auto
  have "most_recent c ?cs"
    using order_desc_head [OF cr] by (simp add: most_recent_def list_all_iff)
  moreover have "calculateResumeOffset d fname = records_processed c"
    using cr by (simp add: calculateResumeOffset_def nonCompletedCheckpoints_def resumable_status_iff)
  ultimately show ?thesis by blast
qed

lemma importLoop_returns:
  "0 < batchSize opts \<Longrightarrow> \<exists>st'. final (importLoop env opts fname logId offset st) = Some st'"
proof (induction env opts fname logId offset st rule: importLoop.induct)
  case (1 env opts fname logId offset st)
  let ?st1 = "st\<lparr>decodeCalls := decodeCalls st @ [(fname, importChunkSize, offset)],
                 shouldStop := (stopDuring env = Some (length (decodeCalls st)))\<rparr>"
  note bs = "1.prems"(1)
  show ?case
  proof (cases "shouldStop st")
    case stopped: True
    show ?thesis using stopped by (subst importLoop.simps) simp
  next
    case ns: False
    show ?thesis
    proof (cases "streamFromS3 (s3 env) fname importChunkSize offset")
      case (Inl e)
      show ?thesis using ns Inl by (subst importLoop.simps) (simp add: Let_def)
    next
      case (Inr chunk)
      show ?thesis
      proof (cases "chunk = []")
        case emp: True
        show ?thesis using ns Inr emp by (subst importLoop.simps) (simp add: Let_def)
      next
        case ne: False
        obtain batches where b: "createBatches chunk (batchSize opts) = Some batches"
          using createBatches_concat [OF bs, of chunk] by blast
        let ?st2 = "forBatches env opts logId batches ?st1"
        show ?thesis
        proof (cases "length chunk < importChunkSize")
          case short: True
          show ?thesis using ns Inr ne b short by (subst importLoop.simps) (simp add: Let_def)
        next
          case full: False
          obtain st' where "final (importLoop env opts fname logId (offset + length chunk) ?st2) = Some st'"
            using "1.IH" [OF ns refl Inr ne b refl full bs] by blast
          then show ?thesis using ns Inr ne b full by (subst importLoop.simps) (simp add: Let_def)
        qed
      qed
    qed
  qed
qed

text \<open>The first decode call recorded in a state.\<close>

definition first_call :: "(string \<times> nat \<times> nat) \<Rightarrow> ImportState \<Rightarrow> bool" where
  "first_call c s = (decodeCalls s \<noteq> [] \<and> hd (decodeCalls s) = c)"

lemma importLoop_first_call:
  assumes "0 < batchSize opts" and "\<not> shouldStop st" and "decodeCalls st = []"
  shows "\<exists>st'. final (importLoop env opts fname logId offset st) = Some st' \<and>
           first_call (fname, importChunkSize, offset) st'"
proof -
  let ?c = "(fname, importChunkSize, offset)"
  let ?st1 = "st\<lparr>decodeCalls := decodeCalls st @ [?c],
                 shouldStop := (stopDuring env = Some (length (decodeCalls st)))\<rparr>"
  have q1: "first_call ?c ?st1" using assms(3) by (simp add: first_call_def)
  obtain st' where st': "final (importLoop env opts fname logId offset st) = Some st'"
    using importLoop_returns [OF assms(1)] by blast
  show ?thesis
  proof (cases "streamFromS3 (s3 env) fname importChunkSize offset")
    case (Inl e)
    then show ?thesis using assms(2) q1 by (subst importLoop.simps) (simp add: Let_def)
  next
    case (Inr chunk)
    show ?thesis
    proof (cases "chunk = []")
      case emp: True
      show ?thesis using assms(2) q1 Inr emp by (subst importLoop.simps) (simp add: Let_def)
    next
      case ne: False
      obtain batches where b: "createBatches chunk (batchSize opts) = Some batches"
        using createBatches_concat [OF assms(1), of chunk] by blast
      let ?st2 = "forBatches env opts logId batches ?st1"
      have q2: "first_call ?c ?st2" using q1 by (simp add: first_call_def)
      show ?thesis
      proof (cases "length chunk < importChunkSize")
        case short: True
        show ?thesis using assms(2) q2 Inr ne b short
          by (subst importLoop.simps) (simp add: Let_def)
      next
        case full: False
        have eq: "importLoop env opts fname logId offset st =
                    importLoop env opts fname logId (offset + length chunk) ?st2"
          using assms(2) Inr ne b full by (subst importLoop.simps) (simp add: Let_def)
        have "first_call ?c st'"
        proof (rule importLoop_preserves [where Q = "first_call ?c", OF _ _ q2])
          show "\<And>s c b. first_call ?c s \<Longrightarrow>
                  first_call ?c (s\<lparr>decodeCalls := decodeCalls s @ [c], shouldStop := b\<rparr>)"
            by (auto simp: first_call_def)
          show "\<forall>s batch. first_call ?c s \<longrightarrow> first_call ?c (processBatch env opts logId batch s)"
            by (simp add: first_call_def)
          show "final (importLoop env opts fname logId (offset + length chunk) ?st2) = Some st'"
            using st' eq by simp
        qed
        then show ?thesis using st' by simp
      qed
    qed
  qed
qed

lemma finalizeImport_decodeCalls:
  "final out = Some st' \<Longrightarrow> \<exists>st. finalizeImport env logId out = Some st \<and> decodeCalls st = decodeCalls st'"
  by (cases out) (auto simp: finalizeImport_def Let_def)

text \<open>
  Claim C3: a run with a positive batch size returns and has made at least one decode
  call.  When it is invoked with \<open>resume = true\<close> and the source has a non-completed
  checkpoint, the first decode call uses the \<open>records_processed\<close> of a most recent
  non-completed checkpoint of that source as its offset; when the source has no
  non-completed checkpoint, the first decode call starts at offset 0.
\<close>

theorem resume_offset:
  assumes "0 < batchSize opts"
  shows "\<exists>st. importFromS3 env opts fname resume d = Some st \<and> decodeCalls st \<noteq> [] \<and>
           (resume \<and> nonCompletedCheckpoints d fname \<noteq> [] \<longrightarrow>
              (\<exists>c. most_recent c (nonCompletedCheckpoints d fname) \<and>
                   hd (decodeCalls st) = (fname, importChunkSize, records_processed c))) \<and>
           (nonCompletedCheckpoints d fname = [] \<longrightarrow>
              hd (decodeCalls st) = (fname, importChunkSize, 0))"
proof -
  obtain logId offset st0 where rs: "resolveStart env fname resume d = (logId, offset, st0)"
    by (cases "resolveStart env fname resume d") auto
  have p: "decodeCalls st0 = []" "\<not> shouldStop st0"
      "offset = (if resume \<or> canResumeImport d fname then calculateResumeOffset d fname else 0)"
    using resolveStart_props [OF rs] by auto
  obtain st' where st': "final (importLoop env opts fname logId offset st0) = Some st'"
      "first_call (fname, importChunkSize, offset) st'"
    using importLoop_first_call [OF assms p(2,1)] by blast
  obtain st where st: "finalizeImport env logId (importLoop env opts fname logId offset st0) = Some st"
      "decodeCalls st = decodeCalls st'"
    using finalizeImport_decodeCalls [OF st'(1)] by blast
  have run: "importFromS3 env opts fname resume d = Some st"
    using rs st(1) by (simp add: importFromS3_def)
  have calls: "decodeCalls st \<noteq> []" "hd (decodeCalls st) = (fname, importChunkSize, offset)"
    using st'(2) st(2) by (simp_all add: first_call_def)
  have a: "\<exists>c. most_recent c (nonCompletedCheckpoints d fname) \<and>
               hd (decodeCalls st) = (fname, importChunkSize, records_processed c)"
    if "resume" "nonCompletedCheckpoints d fname \<noteq> []"
    using calculateResumeOffset_most_recent [OF that(2)] calls(2) p(3) that(1) by auto
  have b: "hd (decodeCalls st) = (fname, importChunkSize, 0)"
    if "nonCompletedCheckpoints d fname = []"
    using calculateResumeOffset_none [OF that] calls(2) p(3) by auto
  show ?thesis using run calls(1) a b by blast
qed


text \<open>A ledger with a paused, a failed and a completed run of one source.\<close>

definition checkpointRow :: "nat \<Rightarrow> int \<Rightarrow> Status \<Rightarrow> nat \<Rightarrow> ImportLogRow" where
  "checkpointRow i t s n =
     \<lparr> log_id = i, source_file = ''part1.jsonl'', started_at = t, completed_at = Some (t + 1),
       records_processed = n, records_imported = n, errors_col = 0, status_col = s,
       error_message = None \<rparr>"

definition resumableDb :: Database where
  "resumableDb =
     \<lparr> inspections = [],
       import_log = [checkpointRow 1 5 Paused 200, checkpointRow 2 9 Failed 400,
                     checkpointRow 3 12 Completed 1000] \<rparr>"

theorem resume_offset_witness:
  "0 < batchSize DEFAULT_OPTIONS \<and>
   nonCompletedCheckpoints resumableDb ''part1.jsonl'' \<noteq> [] \<and>
   (\<exists>st. importFromS3 (sampleEnv twoRecords) DEFAULT_OPTIONS ''part1.jsonl'' True resumableDb = Some st \<and>
         hd (decodeCalls st) = (''part1.jsonl'', importChunkSize, 400))"
proof -
  have h: "0 < batchSize DEFAULT_OPTIONS" by (simp add: DEFAULT_OPTIONS_def)
  have cs: "nonCompletedCheckpoints resumableDb ''part1.jsonl'' =
              [checkpointRow 1 5 Paused 200, checkpointRow 2 9 Failed 400]"
    by (simp add: nonCompletedCheckpoints_def resumableDb_def checkpointRow_def)
  have mr: "records_processed c = 400"
    if "most_recent c [checkpointRow 1 5 Paused 200, checkpointRow 2 9 Failed 400]" for c
    using that by (auto simp: most_recent_def checkpointRow_def)
  obtain st where st: "importFromS3 (sampleEnv twoRecords) DEFAULT_OPTIONS ''part1.jsonl'' True resumableDb = Some st"
      "\<exists>c. most_recent c (nonCompletedCheckpoints resumableDb ''part1.jsonl'') \<and>
           hd (decodeCalls st) = (''part1.jsonl'', importChunkSize, records_processed c)"
    using resume_offset [OF h, of "sampleEnv twoRecords" "''part1.jsonl''" True resumableDb] cs
    by auto
  then have "hd (decodeCalls st) = (''part1.jsonl'', importChunkSize, 400)"
    using mr unfolding cs by auto
  then show ?thesis using h cs st(1) by auto
qed










section \<open>Facts about the streaming scan\<close>












lemma streamLines_Json:
  "sk \<le> offset \<Longrightarrow>
   streamLines (map Json rs) limit offset sk col res =
     res @ take (limit - col) (drop (offset - sk) rs)"
proof (induction rs arbitrary: sk col res)
  case Nil
  then show ?case by simp
next
  case (Cons r rs)
  show ?case
  proof (cases "sk < offset")
    case True
    then have "offset - sk = Suc (offset - Suc sk)" by simp
    then show ?thesis using True Cons.IH [of "Suc sk" col res] by simp
  next
    case False
    then have eq: "offset - sk = 0" using Cons.prems by simp
    show ?thesis
    proof (cases "col < limit")
      case True
      then have "limit - col = Suc (limit - Suc col)" by simp
      then show ?thesis
        using False True Cons.IH [of sk "Suc col" "res @ [r]"] Cons.prems eq by simp
    next
      case False
      then show ?thesis using \<open>\<not> sk < offset\<close> by simp
    qed
  qed
qed

lemma streamFromS3_Json:
  "b fname = Some (map Json rs) \<Longrightarrow>
   streamFromS3 b fname limit offset = Inr (take limit (drop offset rs))"
  by (simp add: streamFromS3_def streamLines_Json)

section \<open>Example data for the searches\<close>

text \<open>The empty filter; a record in a given state; a store whose first file has 500
  records of one state followed by one record of another; a store whose first file has
  three records; the decode calls of a search; and a table of three rows.\<close>

definition noFilters :: SearchFilters where
  "noFilters = \<lparr> cityF = None, stateF = None, materialF = None, scoreMin = None,
                 scoreMax = None, requiresRepair = None \<rparr>"

definition recIn :: "string \<Rightarrow> string \<Rightarrow> SewerInspection" where
  "recIn i st =
     \<lparr> insp_id = Some i, timestamp_utc = Some 1000,
       location = Some \<lparr> city = Some ''Houston'', state = Some st \<rparr>,
       pipe = Some \<lparr> material = Some ''PVC'', diameter_in = Some 8 \<rparr>,
       inspection_score = Some 80, requires_repair = Some False \<rparr>"

definition lateMatchBucket :: bucket where
  "lateMatchBucket f =
     (if f = ''sewer-inspections-part1.jsonl''
      then Some (map Json (replicate 500 (recIn ''x'' ''CA'') @ [recIn ''y'' ''TX'']))
      else Some (map Json []))"





section \<open>Claims about the streaming search\<close>

lemma late_part1:
  "streamFromS3 lateMatchBucket ''sewer-inspections-part1.jsonl'' limit offset =
     Inr (take limit (drop offset (replicate 500 (recIn ''x'' ''CA'') @ [recIn ''y'' ''TX''])))"
  using streamFromS3_Json [of lateMatchBucket "''sewer-inspections-part1.jsonl''"
      "replicate 500 (recIn ''x'' ''CA'') @ [recIn ''y'' ''TX'']" limit offset]
  by (simp add: lateMatchBucket_def)

lemma late_others:
  "fname \<noteq> ''sewer-inspections-part1.jsonl'' \<Longrightarrow>
   streamFromS3 lateMatchBucket fname limit offset = Inr []"
  using streamFromS3_Json [of lateMatchBucket fname "[]" limit offset]
  by (simp add: lateMatchBucket_def)

lemma chunkFilter_CA: "\<not> chunkFilter (noFilters\<lparr>stateF := Some ''TX''\<rparr>) (recIn ''x'' ''CA'')"
  by code_simp

lemma chunkFilter_TX: "chunkFilter (noFilters\<lparr>stateF := Some ''TX''\<rparr>) (recIn ''y'' ''TX'')"
  by code_simp

lemma matchesFilters_CA: "\<not> matchesFilters (recIn ''x'' ''CA'') (noFilters\<lparr>stateF := Some ''TX''\<rparr>)"
  by code_simp

lemma late_scan_part1:
  "streamWithOffsetAndLimit lateMatchBucket ''sewer-inspections-part1.jsonl''
     (noFilters\<lparr>stateF := Some ''TX''\<rparr>) 0 10 0 =
   Inr ([recIn ''y'' ''TX''], 501,
        [(''sewer-inspections-part1.jsonl'', 500, 0, replicate 500 (recIn ''x'' ''CA'')),
         (''sewer-inspections-part1.jsonl'', 500, 500, [recIn ''y'' ''TX''])])"
proof -
  have b: "lateMatchBucket ''sewer-inspections-part1.jsonl'' =
             Some (map Json (replicate 500 (recIn ''x'' ''CA'') @ [recIn ''y'' ''TX'']))"
    by (simp add: lateMatchBucket_def)
  have f1: "filter (chunkFilter (noFilters\<lparr>stateF := Some ''TX''\<rparr>)) (replicate 500 (recIn ''x'' ''CA'')) = []"
    using chunkFilter_CA by simp
  show ?thesis
    unfolding streamWithOffsetAndLimit_def
    apply (subst streamLoop.simps)
    apply (simp add: late_part1 searchChunkSize_def f1 Let_def)
    apply (subst streamLoop.simps)
    apply (simp add: late_part1 searchChunkSize_def chunkFilter_TX Let_def)
    done
qed

lemma late_scan_empty:
  assumes "fname \<noteq> ''sewer-inspections-part1.jsonl''"
  shows "streamWithOffsetAndLimit lateMatchBucket fname (noFilters\<lparr>stateF := Some ''TX''\<rparr>) sk 9 g =
           Inr ([], 0, [(fname, 500, 0, [])])"
proof -
  have b: "lateMatchBucket fname = Some (map Json [])"
    using assms by (simp add: lateMatchBucket_def)
  show ?thesis
    unfolding streamWithOffsetAndLimit_def
    by (subst streamLoop.simps) (simp add: late_part1 late_others assms searchChunkSize_def Let_def)
qed

text \<open>
  Claim C1 says that the streaming search never reports a total below the number of
  matches its scan observed, in particular below the length of the page it returns.
  The code bounds the estimate from below by the matches in its 500-record samples, not
  by the scan's \<open>totalMatchesFound\<close>.  On a first file of 500 records outside the filter
  followed by one record inside it, the search for page 1 of size 10 returns that one
  record, has counted one match, and reports a total of 0.
\<close>

theorem estimate_below_results:
  "searchInspections_S3 lateMatchBucket (noFilters\<lparr>stateF := Some ''TX''\<rparr>) 1 10 =
     Inr (\<lparr> results = [recIn ''y'' ''TX''], totalCount = 0 \<rparr>, 1,
          [(''sewer-inspections-part1.jsonl'', 500, 0, replicate 500 (recIn ''x'' ''CA'')),
           (''sewer-inspections-part1.jsonl'', 500, 500, [recIn ''y'' ''TX'']),
           (''sewer-inspections-part2.jsonl'', 500, 0, []),
           (''sewer-inspections-part3.jsonl'', 500, 0, []),
           (''sewer-inspections-part4.jsonl'', 500, 0, []),
           (''sewer-inspections-part5.jsonl'', 500, 0, [])],
          [(''sewer-inspections-part1.jsonl'', 500, 0, replicate 500 (recIn ''x'' ''CA'')),
           (''sewer-inspections-part2.jsonl'', 500, 0, []),
           (''sewer-inspections-part3.jsonl'', 500, 0, []),
           (''sewer-inspections-part4.jsonl'', 500, 0, []),
           (''sewer-inspections-part5.jsonl'', 500, 0, [])])"
proof -
  have b1: "lateMatchBucket ''sewer-inspections-part1.jsonl'' =
             Some (map Json (replicate 500 (recIn ''x'' ''CA'') @ [recIn ''y'' ''TX'']))"
    by (simp add: lateMatchBucket_def)
  have b: "lateMatchBucket fname = Some (map Json [])"
    if "fname \<noteq> ''sewer-inspections-part1.jsonl''" for fname
    using that by (simp add: lateMatchBucket_def)
  have m: "filter (\<lambda>i. matchesFilters i (noFilters\<lparr>stateF := Some ''TX''\<rparr>)) (replicate 500 (recIn ''x'' ''CA'')) = []"
    using matchesFilters_CA by simp
  have scan: "scanFiles lateMatchBucket (noFilters\<lparr>stateF := Some ''TX''\<rparr>) 0 10 filesToSearch [] 0 0 [] =
     Inr ([recIn ''y'' ''TX''], 1, 501,
          [(''sewer-inspections-part1.jsonl'', 500, 0, replicate 500 (recIn ''x'' ''CA'')),
           (''sewer-inspections-part1.jsonl'', 500, 500, [recIn ''y'' ''TX'']),
           (''sewer-inspections-part2.jsonl'', 500, 0, []),
           (''sewer-inspections-part3.jsonl'', 500, 0, []),
           (''sewer-inspections-part4.jsonl'', 500, 0, []),
           (''sewer-inspections-part5.jsonl'', 500, 0, [])])"
    by (simp add: filesToSearch_def late_scan_part1 late_scan_empty)
  have est: "estimateTotalCount lateMatchBucket (noFilters\<lparr>stateF := Some ''TX''\<rparr>) filesToSearch =
     (0, [(''sewer-inspections-part1.jsonl'', 500, 0, replicate 500 (recIn ''x'' ''CA'')),
           (''sewer-inspections-part2.jsonl'', 500, 0, []),
           (''sewer-inspections-part3.jsonl'', 500, 0, []),
           (''sewer-inspections-part4.jsonl'', 500, 0, []),
           (''sewer-inspections-part5.jsonl'', 500, 0, [])])"
    by (simp add: estimateTotalCount_def filesToSearch_def late_part1 late_others searchChunkSize_def m)
  show ?thesis
    by (simp add: searchInspections_S3_def scan est)
qed










section \<open>Claims about the indexed search\<close>









text \<open>
  Claim C2 says that both backends match the state filter without regard to case, so
  that the indexed search gives the same rows for \<open>tx\<close> and \<open>TX\<close>.  The indexed backend
  compares with \<open>state = ?\<close>, which is case-sensitive: over a table holding one row of
  state \<open>TX\<close>, the filter \<open>tx\<close> finds nothing and counts 0, the filter \<open>TX\<close> finds the
  row, and the streaming backend's predicates accept the same record under \<open>tx\<close>.
\<close>

theorem state_filter_case_divergence:
  "results (searchInspections_db (noFilters\<lparr>stateF := Some ''tx''\<rparr>) 1 10
              \<lparr>inspections = [sampleRow ''a''], import_log = []\<rparr>) = [] \<and>
   totalCount (searchInspections_db (noFilters\<lparr>stateF := Some ''tx''\<rparr>) 1 10
              \<lparr>inspections = [sampleRow ''a''], import_log = []\<rparr>) = 0 \<and>
   results (searchInspections_db (noFilters\<lparr>stateF := Some ''TX''\<rparr>) 1 10
              \<lparr>inspections = [sampleRow ''a''], import_log = []\<rparr>) =
     [transformDbToInspection (sampleRow ''a'')] \<and>
   state_col (sampleRow ''a'') = ''TX'' \<and>
   chunkFilter (noFilters\<lparr>stateF := Some ''tx''\<rparr>) (transformDbToInspection (sampleRow ''a'')) \<and>
   matchesFilters (transformDbToInspection (sampleRow ''a'')) (noFilters\<lparr>stateF := Some ''tx''\<rparr>)"
  by code_simp

section \<open>Claim about the import guard\<close>

text \<open>
  Claim C9 says that a start request is rejected with 409 while an import runs.  A
  start request without a file name runs \<open>importAllFiles\<close>, which sets \<open>isRunning\<close> on a
  new importer per file and never on \<open>currentImporter\<close>: after such a request an import
  is running, and a second start request is accepted.  With a file name the second
  request is rejected.
\<close>

theorem import_all_bypasses_guard:
  "fst (startImport None initialRoute) = Response 200 ''Import started successfully'' \<and>
   anyImportRunning (snd (startImport None initialRoute)) \<and>
   fst (startImport None (snd (startImport None initialRoute))) =
     Response 200 ''Import started successfully'' \<and>
   fst (startImport (Some ''part1.jsonl'') (snd (startImport (Some ''part1.jsonl'') initialRoute))) =
     Response 409 ''Import is already running''"
  by code_simp


end
